theory Spec2Isabelle
  imports Complex_Main
begin

section \<open>Numeric arrays\<close>

text \<open>
  Element types of arrays and tensors. Only the distinction between floating and
  non-floating types, and the identity of the 32 and 64 bit floats, is used by the code.
\<close>

datatype dtype = Bool | UInt8 | Int32 | Int64 | Float16 | Float32 | Float64

fun is_floating :: "dtype \<Rightarrow> bool" where
  "is_floating Float16 = True"
| "is_floating Float32 = True"
| "is_floating Float64 = True"
| "is_floating _ = False"

text \<open>
  An array entry. Finite values are idealised as real numbers (rounding and overflow are
  not modelled); the two infinities and NaN are kept, because the logarithms of the
  ensembling rules produce them on zero and negative entries without raising.
\<close>

datatype fnum = Fin real | PInf | NInf | NaN

fun fadd :: "fnum \<Rightarrow> fnum \<Rightarrow> fnum" where
  "fadd (Fin a) (Fin b) = Fin (a + b)"
| "fadd NaN _ = NaN"
| "fadd _ NaN = NaN"
| "fadd PInf NInf = NaN"
| "fadd NInf PInf = NaN"
| "fadd PInf _ = PInf"
| "fadd _ PInf = PInf"
| "fadd NInf _ = NInf"
| "fadd _ NInf = NInf"

fun fdiv_count :: "fnum \<Rightarrow> nat \<Rightarrow> fnum" where
  "fdiv_count (Fin a) n = (if n = 0 then NaN else Fin (a / real n))"
| "fdiv_count x n = x"

fun flog :: "fnum \<Rightarrow> fnum" where
  "flog (Fin a) = (if 0 < a then Fin (ln a) else if a = 0 then NInf else NaN)"
| "flog PInf = PInf"
| "flog NInf = NaN"
| "flog NaN = NaN"

fun fexp :: "fnum \<Rightarrow> fnum" where
  "fexp (Fin a) = Fin (exp a)"
| "fexp PInf = PInf"
| "fexp NInf = Fin 0"
| "fexp NaN = NaN"

text \<open>
  A numpy array: element type, shape, and the entries in row-major order.
\<close>

record ndarray =
  nd_dtype :: dtype
  nd_shape :: "nat list"
  nd_vals :: "fnum list"

definition nd_ok :: "ndarray \<Rightarrow> bool" where
  "nd_ok a = (length (nd_vals a) = prod_list (nd_shape a))"

datatype error =
    KeyError string
  | ValueError string
  | TypeError string
  | AxisError
  | Other string

text \<open>
  \<open>np.mean\<close> of one column: the sum of the entries divided by their number; the mean of
  no entries is NaN.
\<close>

definition mean_col :: "fnum list \<Rightarrow> fnum" where
  "mean_col xs = fdiv_count (foldl fadd (Fin 0) xs) (length xs)"

text \<open>
  The columns along axis 0 of an array of shape \<open>m # s\<close>: one column of \<open>m\<close> entries for
  each of the \<open>prod_list s\<close> positions of a member.
\<close>

definition axis0_columns :: "nat \<Rightarrow> nat list \<Rightarrow> fnum list \<Rightarrow> fnum list list" where
  "axis0_columns m s vs =
     map (\<lambda>i. map (\<lambda>k. vs ! (k * prod_list s + i)) [0..<m]) [0..<prod_list s]"

text \<open>
  A reduction \<open>f\<close> along axis 0, as \<open>np.mean(x, axis=0)\<close> does it; an array of rank 0 has no
  axis 0.
\<close>

definition reduce_axis0 :: "(fnum list \<Rightarrow> fnum) \<Rightarrow> ndarray \<Rightarrow> error + ndarray" where
  "reduce_axis0 f x =
     (case nd_shape x of
        [] \<Rightarrow> Inl AxisError
      | m # s \<Rightarrow> Inr \<lparr>nd_dtype = nd_dtype x, nd_shape = s,
                      nd_vals = map f (axis0_columns m s (nd_vals x))\<rparr>)"

definition map_nd :: "(fnum \<Rightarrow> fnum) \<Rightarrow> ndarray \<Rightarrow> ndarray" where
  "map_nd f x = x\<lparr>nd_vals := map f (nd_vals x)\<rparr>"

section \<open>prediction.py\<close>

subsection \<open>The ensembling rules\<close>

text \<open>
  \<open>scipy.stats.mstats.gmean(x, axis=0)\<close> is \<open>exp(mean(log(x), axis=0))\<close>.
\<close>

definition gmean :: "ndarray \<Rightarrow> error + ndarray" where
  "gmean x = (case reduce_axis0 mean_col (map_nd flog x) of
                Inl e \<Rightarrow> Inl e
              | Inr y \<Rightarrow> Inr (map_nd fexp y))"

text \<open>\<open>x + (x == 0)\<close>: the comparison is 1 on the entries that are exactly zero.\<close>

definition zero_guard :: "fnum \<Rightarrow> fnum" where
  "zero_guard a = fadd a (Fin (if a = Fin 0 then 1 else 0))"

text \<open>
  \<open>_ensemble\<close> builds a dictionary of the three combinations, all three evaluated, in
  order, before the lookup; then it looks \<open>en_type\<close> up.
\<close>

definition ensemble :: "string \<Rightarrow> ndarray \<Rightarrow> error + ndarray" where
  "ensemble en_type x =
     (case reduce_axis0 mean_col x of
        Inl e \<Rightarrow> Inl e
      | Inr v_mean \<Rightarrow>
     (case gmean x of
        Inl e \<Rightarrow> Inl e
      | Inr v_gmean \<Rightarrow>
     (case reduce_axis0 mean_col (map_nd (flog \<circ> zero_guard) x) of
        Inl e \<Rightarrow> Inl e
      | Inr v_log_mean \<Rightarrow>
          (if en_type = ''mean'' then Inr v_mean
           else if en_type = ''gmean'' then Inr v_gmean
           else if en_type = ''log_mean'' then Inr v_log_mean
           else Inl (KeyError en_type)))))"

subsection \<open>EnsemblePredictor\<close>

text \<open>
  A member predictor is its \<open>predict\<close> method: from the input to a prediction array, or
  an error. The loop runs the members in order and stops at the first error.
\<close>

fun run_predictors :: "('x \<Rightarrow> error + ndarray) list \<Rightarrow> 'x \<Rightarrow> error + ndarray list" where
  "run_predictors [] X = Inr []"
| "run_predictors (p # ps) X =
     (case p X of
        Inl e \<Rightarrow> Inl e
      | Inr predictions \<Rightarrow>
          (case run_predictors ps X of
             Inl e \<Rightarrow> Inl e
           | Inr rest \<Rightarrow> Inr (predictions # rest)))"

text \<open>
  \<open>np.array(list_of_arrays, dtype=t)\<close>: the members stacked along a new first axis, with
  element type \<open>t\<close>. Members of different shapes cannot be stacked into a numeric array.
  The empty list gives the empty array of shape \<open>[0]\<close>.
\<close>

definition np_array :: "ndarray list \<Rightarrow> dtype \<Rightarrow> error + ndarray" where
  "np_array arrs t =
     (case arrs of
        [] \<Rightarrow> Inr \<lparr>nd_dtype = t, nd_shape = [0], nd_vals = []\<rparr>
      | a # rest \<Rightarrow>
          (if list_all (\<lambda>b. nd_shape b = nd_shape a) rest
           then Inr \<lparr>nd_dtype = t, nd_shape = length arrs # nd_shape a,
                     nd_vals = concat (map nd_vals arrs)\<rparr>
           else Inl (ValueError ''setting an array element with a sequence.'')))"

definition EnsemblePredictor_predict ::
  "('x \<Rightarrow> error + ndarray) list \<Rightarrow> 'x \<Rightarrow> string \<Rightarrow> error + ndarray" where
  "EnsemblePredictor_predict predictors X ensemble_type =
     (case run_predictors predictors X of
        Inl e \<Rightarrow> Inl e
      | Inr multiple_predictions \<Rightarrow>
          (case np_array multiple_predictions Float32 of
             Inl e \<Rightarrow> Inl e
           | Inr stacked \<Rightarrow> ensemble ensemble_type stacked))"

subsection \<open>CropPredictor\<close>

text \<open>
  \<open>np.mean(list_of_arrays, axis=0)\<close>: the list is stacked first; the mean of a
  non-floating array is a 64 bit float.
\<close>

definition np_mean_list :: "ndarray list \<Rightarrow> error + ndarray" where
  "np_mean_list arrs =
     (case np_array arrs (case arrs of [] \<Rightarrow> Float64 | a # _ \<Rightarrow> nd_dtype a) of
        Inl e \<Rightarrow> Inl e
      | Inr x \<Rightarrow>
          reduce_axis0 mean_col
            (x\<lparr>nd_dtype := (if is_floating (nd_dtype x) then nd_dtype x else Float64)\<rparr>))"

text \<open>
  The composed \<open>OneCropPredictor\<close> is its \<open>_real_predict\<close>, from the input and the optional
  crop box to the predictions or an error. The loop over the crop boxes stops at the first
  error.
\<close>

fun run_crops ::
  "('x \<Rightarrow> 'b option \<Rightarrow> error + ndarray) \<Rightarrow> 'x \<Rightarrow> 'b list \<Rightarrow> error + ndarray list" where
  "run_crops one_crop X [] = Inr []"
| "run_crops one_crop X (bbox # bboxs) =
     (case one_crop X (Some bbox) of
        Inl e \<Rightarrow> Inl e
      | Inr predictions \<Rightarrow>
          (case run_crops one_crop X bboxs of
             Inl e \<Rightarrow> Inl e
           | Inr rest \<Rightarrow> Inr (predictions # rest)))"

text \<open>
  \<open>CropPredictor._real_predict\<close>. \<open>get_bbox_10crop\<close> stands for
  \<open>util.get_bbox_10crop(self.crop_size, self.im_size)\<close>, whose code is outside the two
  source files. A Python function that ends without \<open>return\<close> returns \<open>None\<close>: the result
  is an optional array.
\<close>

definition CropPredictor_real_predict ::
  "int \<Rightarrow> ('x \<Rightarrow> 'b option \<Rightarrow> error + ndarray) \<Rightarrow> 'b list \<Rightarrow> 'x
     \<Rightarrow> error + ndarray option" where
  "CropPredictor_real_predict number_of_crops one_crop get_bbox_10crop X =
     (if number_of_crops > 1 then
        (case run_crops one_crop X get_bbox_10crop of
           Inl e \<Rightarrow> Inl e
         | Inr multiple_predictions \<Rightarrow>
             (case np_mean_list multiple_predictions of
                Inl e \<Rightarrow> Inl e
              | Inr r \<Rightarrow> Inr (Some r)))
      else if number_of_crops = 1 then
        (case one_crop X None of
           Inl e \<Rightarrow> Inl e
         | Inr predictions \<Rightarrow> Inr (Some predictions))
      else Inr None)"

section \<open>gan\_metrics.py\<close>

subsection \<open>Tensors\<close>

text \<open>
  A tensor: element type, shape, and the entries in row-major order. The entries are
  finite values, idealised as real numbers (rounding and overflow are not modelled). A
  computation that floating-point arithmetic answers with an infinity or a NaN instead of
  raising (a logarithm of a non-positive number, a division by zero) has the outcome
  \<open>NonFinite\<close>.
\<close>

record tensor =
  t_dtype :: dtype
  t_shape :: "nat list"
  t_vals :: "real list"

definition t_ok :: "tensor \<Rightarrow> bool" where
  "t_ok t = (length (t_vals t) = prod_list (t_shape t))"

datatype 'a numeric = Finite 'a | NonFinite

definition map_t :: "(real \<Rightarrow> real) \<Rightarrow> tensor \<Rightarrow> tensor" where
  "map_t f t = t\<lparr>t_vals := map f (t_vals t)\<rparr>"

subsection \<open>Running the classifier\<close>

text \<open>
  \<open>_validate_images\<close>: the images must have rank 4 and be compatible with the shape
  \<open>[None, image_size, image_size, None]\<close>; both checks raise \<open>ValueError\<close>.
\<close>

definition validate_images :: "tensor \<Rightarrow> nat \<Rightarrow> error + tensor" where
  "validate_images images image_size =
     (if length (t_shape images) \<noteq> 4 then Inl (ValueError ''Shape must have rank 4'')
      else if t_shape images ! 1 \<noteq> image_size \<or> t_shape images ! 2 \<noteq> image_size
        then Inl (ValueError ''Shapes are incompatible'')
      else Inr images)"

text \<open>
  Modelled from the spec: \<open>flatten\<close> of \<open>tefla.core.layers\<close>, whose code is not among the
  source files. The specification says that it flattens the trailing dimensions into one
  feature axis, leaving the batch axis: the shape \<open>b # ds\<close> becomes \<open>[b, prod ds]\<close> and the
  entries keep their order. A tensor of rank 0 has no batch axis.
\<close>

definition flatten :: "tensor \<Rightarrow> error + tensor" where
  "flatten x =
     (case t_shape x of
        [] \<Rightarrow> Inl (ValueError ''Input Tensor shape must be > 1-D'')
      | b # ds \<Rightarrow> Inr (x\<lparr>t_shape := [b, prod_list ds]\<rparr>))"

text \<open>
  \<open>run_image_classifier\<close>: \<open>tf.import_graph_def\<close> binds the tensor to the input name and
  returns the tensors of the requested names; the first one is the classifier's output.
  \<open>import_graph_def\<close> is TensorFlow's and is a parameter of the model.
\<close>

definition run_image_classifier ::
  "('g \<Rightarrow> (string \<times> tensor) \<Rightarrow> string list \<Rightarrow> error + tensor list)
     \<Rightarrow> tensor \<Rightarrow> 'g \<Rightarrow> string \<Rightarrow> string \<Rightarrow> error + tensor" where
  "run_image_classifier import_graph_def tensor graph_def input_tensor output_tensor =
     (case import_graph_def graph_def (input_tensor, tensor) [output_tensor] of
        Inl e \<Rightarrow> Inl e
      | Inr [] \<Rightarrow> Inl (Other ''IndexError: list index out of range'')
      | Inr (classifier_output # _) \<Rightarrow> Inr classifier_output)"

text \<open>
  \<open>run_inception\<close>. The graph is the one given or, when none is given, the one the default
  provider returns; with neither there is a \<open>ValueError\<close>.
\<close>

definition run_inception ::
  "('g \<Rightarrow> (string \<times> tensor) \<Rightarrow> string list \<Rightarrow> error + tensor list)
     \<Rightarrow> tensor \<Rightarrow> 'g option \<Rightarrow> (unit \<Rightarrow> error + 'g) option \<Rightarrow> nat \<Rightarrow> string \<Rightarrow> string
     \<Rightarrow> error + tensor" where
  "run_inception import_graph_def images graph_def default_graph_def_fn image_size
                 input_tensor output_tensor =
     (case validate_images images image_size of
        Inl e \<Rightarrow> Inl e
      | Inr images \<Rightarrow>
     (case (case graph_def of
              Some g \<Rightarrow> Inr g
            | None \<Rightarrow>
                (case default_graph_def_fn of
                   None \<Rightarrow> Inl (ValueError ''If `graph_def` is `None`, must provide `default_graph_def_fn`.'')
                 | Some fn \<Rightarrow> fn ())) of
        Inl e \<Rightarrow> Inl e
      | Inr graph_def \<Rightarrow>
     (case run_image_classifier import_graph_def images graph_def input_tensor output_tensor of
        Inl e \<Rightarrow> Inl e
      | Inr activations \<Rightarrow>
          (if length (t_shape activations) \<noteq> 2 then flatten activations
           else Inr activations))))"

subsection \<open>Preprocessing\<close>

definition to_float :: "tensor \<Rightarrow> tensor" where
  "to_float t = t\<lparr>t_dtype := Float32\<rparr>"

definition expand_dims0 :: "tensor \<Rightarrow> tensor" where
  "expand_dims0 t = t\<lparr>t_shape := 1 # t_shape t\<rparr>"

text \<open>\<open>tf.squeeze(x, axis=0)\<close> removes a first dimension of size 1 and raises on any other.\<close>

definition squeeze0 :: "tensor \<Rightarrow> error + tensor" where
  "squeeze0 t =
     (case t_shape t of
        [] \<Rightarrow> Inl (ValueError ''Can not squeeze dim[0]'')
      | d # ds \<Rightarrow> (if d = 1 then Inr (t\<lparr>t_shape := ds\<rparr>)
                  else Inl (ValueError ''Can not squeeze dim[0], expected a dimension of 1'')))"

text \<open>
  \<open>preprocess_image\<close>. \<open>resize_bilinear\<close> is TensorFlow's \<open>tf.image.resize_bilinear\<close>, a
  parameter of the model: from the images and the new height and width to the resized
  images, or an error.
\<close>

definition preprocess_image ::
  "(tensor \<Rightarrow> nat \<Rightarrow> nat \<Rightarrow> error + tensor) \<Rightarrow> tensor \<Rightarrow> nat \<Rightarrow> nat \<Rightarrow> error + tensor" where
  "preprocess_image resize_bilinear images height width =
     (let is_single = (length (t_shape images) = 3);
          images = (if \<not> is_floating (t_dtype images) then to_float images else images);
          images = (if is_single then expand_dims0 images else images)
      in case resize_bilinear images height width of
           Inl e \<Rightarrow> Inl e
         | Inr resized \<Rightarrow>
             (let resized = map_t (\<lambda>x. (x - 128) / 128) resized
              in if is_single then squeeze0 resized else Inr resized))"

text \<open>
  What the properties of \<open>preprocess_image\<close> need of the bilinear resize: a batch of
  images that all have one constant value is resized to the requested height and width
  with the same constant value (an interpolated pixel is a weighted mean of pixels).
\<close>

definition const_vals :: "real \<Rightarrow> tensor \<Rightarrow> bool" where
  "const_vals c t = (t_vals t = replicate (prod_list (t_shape t)) c)"

definition resize_keeps_constants :: "(tensor \<Rightarrow> nat \<Rightarrow> nat \<Rightarrow> error + tensor) \<Rightarrow> bool" where
  "resize_keeps_constants resize =
     (\<forall>t c b ih iw ch h w.
        t_shape t = [b, ih, iw, ch] \<and> 0 < ih \<and> 0 < iw \<and> const_vals c t \<longrightarrow>
        (\<exists>r. resize t h w = Inr r \<and> t_shape r = [b, h, w, ch] \<and> const_vals c r))"

subsection \<open>The Kullback-Leibler divergence\<close>

text \<open>
  The rows of a tensor of rank 2 with \<open>n\<close> rows of \<open>c\<close> entries.
\<close>

definition rows_of :: "nat \<Rightarrow> nat \<Rightarrow> real list \<Rightarrow> real list list" where
  "rows_of n c vs = map (\<lambda>i. take c (drop (i * c) vs)) [0..<n]"

definition log_softmax_row :: "real list \<Rightarrow> real list" where
  "log_softmax_row row = map (\<lambda>x. x - ln (sum_list (map exp row))) row"

definition softmax_row :: "real list \<Rightarrow> real list" where
  "softmax_row row = map (\<lambda>x. exp x / sum_list (map exp row)) row"

text \<open>\<open>tf.nn.log_softmax\<close> and \<open>tf.nn.softmax\<close> of a tensor of rank 2 work on each row.\<close>

definition rowwise :: "(real list \<Rightarrow> real list) \<Rightarrow> tensor \<Rightarrow> tensor" where
  "rowwise f t =
     t\<lparr>t_vals := concat (map f (rows_of (t_shape t ! 0) (t_shape t ! 1) (t_vals t)))\<rparr>"

text \<open>
  Broadcasting of two dimensions: equal dimensions stay, a dimension 1 is stretched to
  the other, anything else is rejected. The entry at row \<open>i\<close> and column \<open>j\<close> of an operand of
  shape \<open>[r, c]\<close> stretched this way, and the entry at \<open>j\<close> of one of shape \<open>[c]\<close>.
\<close>

definition bdim :: "nat \<Rightarrow> nat \<Rightarrow> nat option" where
  "bdim a b = (if a = b then Some a else if a = 1 then Some b
               else if b = 1 then Some a else None)"

definition at2 :: "nat \<Rightarrow> nat \<Rightarrow> real list \<Rightarrow> nat \<Rightarrow> nat \<Rightarrow> real" where
  "at2 r c vs i j = vs ! ((if r = 1 then 0 else i) * c + (if c = 1 then 0 else j))"

definition at1 :: "nat \<Rightarrow> real list \<Rightarrow> nat \<Rightarrow> real" where
  "at1 c vs j = vs ! (if c = 1 then 0 else j)"

text \<open>
  A tensor that an arithmetic operation has computed: its element type and its shape,
  and its entries, which are real numbers (\<open>Finite\<close>) unless some of them are infinite or
  NaN (\<open>NonFinite\<close>).
\<close>

record computed =
  c_dtype :: dtype
  c_shape :: "nat list"
  c_vals :: "real list numeric"

text \<open>
  \<open>tf.reduce_sum(p * (tf.nn.log_softmax(p_logits) - tf.log(q)), axis=1)\<close> for \<open>p\<close> of shape
  \<open>[n, c]\<close>, \<open>p_logits\<close> of shape \<open>[n', c']\<close> and \<open>q\<close> of shape \<open>[c'']\<close>. The operands of an
  arithmetic operation must have one element type and shapes that broadcast; the result
  has one entry for each row of the broadcast shape. Where an entry of \<open>q\<close> that is used is
  not positive, its logarithm is infinite or NaN, and so is every entry of the result.
\<close>

definition kl_sum :: "tensor \<Rightarrow> tensor \<Rightarrow> tensor \<Rightarrow> error + computed" where
  "kl_sum p p_logits q =
     (let n = t_shape p ! 0; c = t_shape p ! 1;
          n' = t_shape p_logits ! 0; c' = t_shape p_logits ! 1;
          c'' = t_shape q ! 0
      in if t_dtype p_logits \<noteq> t_dtype q \<or> t_dtype p \<noteq> t_dtype p_logits
         then Inl (TypeError ''Input of Op has type that does not match'')
         else
           (case bdim c' c'' of
              None \<Rightarrow> Inl (ValueError ''Dimensions must be equal'')
            | Some cd \<Rightarrow>
           (case bdim n n' of
              None \<Rightarrow> Inl (ValueError ''Dimensions must be equal'')
            | Some R \<Rightarrow>
           (case bdim c cd of
              None \<Rightarrow> Inl (ValueError ''Dimensions must be equal'')
            | Some C \<Rightarrow>
                (let ls = t_vals (rowwise log_softmax_row p_logits)
                 in Inr \<lparr>c_dtype = t_dtype p, c_shape = [R],
                         c_vals =
                           (if 0 < R \<and> list_ex (\<lambda>j. at1 c'' (t_vals q) j \<le> 0) [0..<C]
                            then NonFinite
                            else Finite
                              (map (\<lambda>i. sum_list (map (\<lambda>j. at2 n c (t_vals p) i j
                                        * (at2 n' c' ls i j - ln (at1 c'' (t_vals q) j))) [0..<C]))
                                   [0..<R]))\<rparr>)))))"

text \<open>
  \<open>_kl_divergence\<close>: the three tensors are checked for a floating element type, in order,
  then \<open>p\<close> and \<open>p_logits\<close> for rank 2 and \<open>q\<close> for rank 1; every check raises \<open>ValueError\<close>.
\<close>

definition kl_divergence :: "tensor \<Rightarrow> tensor \<Rightarrow> tensor \<Rightarrow> error + computed" where
  "kl_divergence p p_logits q =
     (if \<not> is_floating (t_dtype p) then Inl (ValueError ''Input must be floating type.'')
      else if \<not> is_floating (t_dtype p_logits) then Inl (ValueError ''Input must be floating type.'')
      else if \<not> is_floating (t_dtype q) then Inl (ValueError ''Input must be floating type.'')
      else if length (t_shape p) \<noteq> 2 then Inl (ValueError ''Shape must have rank 2'')
      else if length (t_shape p_logits) \<noteq> 2 then Inl (ValueError ''Shape must have rank 2'')
      else if length (t_shape q) \<noteq> 1 then Inl (ValueError ''Shape must have rank 1'')
      else kl_sum p p_logits q)"

subsection \<open>Splitting a batch and mapping the classifier\<close>

text \<open>
  The \<open>i\<close>-th of the consecutive blocks of \<open>k\<close> entries of a list.
\<close>

definition block :: "nat \<Rightarrow> nat \<Rightarrow> 'a list \<Rightarrow> 'a list" where
  "block k i xs = take k (drop (i * k) xs)"

text \<open>
  \<open>tf.split(t, num_or_size_splits=n)\<close> cuts the first axis into \<open>n\<close> equal parts and raises
  when its size is not a multiple of \<open>n\<close>.
\<close>

definition split0 :: "tensor \<Rightarrow> nat \<Rightarrow> error + tensor list" where
  "split0 t n =
     (case t_shape t of
        [] \<Rightarrow> Inl (ValueError ''Cannot split a scalar'')
      | d # ds \<Rightarrow>
          (if n = 0 \<or> d mod n \<noteq> 0
           then Inl (ValueError ''Dimension size must be evenly divisible by num_split'')
           else Inr (map (\<lambda>i. \<lparr>t_dtype = t_dtype t, t_shape = (d div n) # ds,
                                 t_vals = block ((d div n) * prod_list ds) i (t_vals t)\<rparr>)
                         [0..<n])))"

text \<open>
  \<open>tf.stack\<close> puts tensors of one shape and element type along a new first axis, and
  \<open>tf.unstack\<close> takes a tensor apart along its first axis.
\<close>

definition stack :: "tensor list \<Rightarrow> error + tensor" where
  "stack ts =
     (case ts of
        [] \<Rightarrow> Inl (ValueError ''stack of no tensors'')
      | a # rest \<Rightarrow>
          (if list_all (\<lambda>b. t_shape b = t_shape a \<and> t_dtype b = t_dtype a) rest
           then Inr \<lparr>t_dtype = t_dtype a, t_shape = length ts # t_shape a,
                     t_vals = concat (map t_vals ts)\<rparr>
           else Inl (ValueError ''Shapes of all inputs must match'')))"

definition unstack :: "tensor \<Rightarrow> error + tensor list" where
  "unstack t =
     (case t_shape t of
        [] \<Rightarrow> Inl (ValueError ''Cannot unstack a scalar'')
      | d # ds \<Rightarrow> Inr (map (\<lambda>i. \<lparr>t_dtype = t_dtype t, t_shape = ds,
                                  t_vals = block (prod_list ds) i (t_vals t)\<rparr>) [0..<d]))"

text \<open>
  \<open>tf.concat(ts, 0)\<close> joins tensors along their first axis; they must agree in element
  type and in the other dimensions.
\<close>

definition concat0 :: "tensor list \<Rightarrow> error + tensor" where
  "concat0 ts =
     (case ts of
        [] \<Rightarrow> Inl (ValueError ''concat of no tensors'')
      | a # rest \<Rightarrow>
          (if t_shape a = [] then Inl (ValueError ''Can not concatenate scalars'')
           else if list_all (\<lambda>b. t_shape b \<noteq> [] \<and> tl (t_shape b) = tl (t_shape a)
                                  \<and> t_dtype b = t_dtype a) rest
           then Inr \<lparr>t_dtype = t_dtype a,
                     t_shape = sum_list (map (\<lambda>b. hd (t_shape b)) ts) # tl (t_shape a),
                     t_vals = concat (map t_vals ts)\<rparr>
           else Inl (ValueError ''Dimensions of inputs should match'')))"

text \<open>
  The classifier is a function from a batch of images to its output, or an error.
  \<open>tf.map_fn\<close> with \<open>parallel_iterations=1\<close> applies it to the slices of the first axis in
  order and stacks the results. It is called without \<open>dtype=\<close>, so the results are
  collected in an array of the element type of \<open>elems\<close>, and a result of another element
  type is refused.
\<close>

fun run_each :: "(tensor \<Rightarrow> error + tensor) \<Rightarrow> tensor list \<Rightarrow> error + tensor list" where
  "run_each fn [] = Inr []"
| "run_each fn (x # xs) =
     (case fn x of
        Inl e \<Rightarrow> Inl e
      | Inr y \<Rightarrow>
          (case run_each fn xs of
             Inl e \<Rightarrow> Inl e
           | Inr ys \<Rightarrow> Inr (y # ys)))"

definition map_fn :: "(tensor \<Rightarrow> error + tensor) \<Rightarrow> tensor \<Rightarrow> error + tensor" where
  "map_fn fn elems =
     (case unstack elems of
        Inl e \<Rightarrow> Inl e
      | Inr xs \<Rightarrow>
          (case run_each fn xs of
             Inl e \<Rightarrow> Inl e
           | Inr ys \<Rightarrow>
               (if list_all (\<lambda>y. t_dtype y = t_dtype elems) ys then stack ys
                else Inl (TypeError ''Output of fn does not match the dtype of elems''))))"

subsection \<open>The classifier score\<close>

text \<open>
  \<open>tf.reduce_mean(p, axis=0)\<close> of a tensor of shape \<open>[n, c]\<close>, and \<open>tf.reduce_mean\<close> of a
  vector. The mean of no values is NaN.
\<close>

definition reduce_mean0 :: "tensor \<Rightarrow> tensor numeric" where
  "reduce_mean0 t =
     (let n = t_shape t ! 0; c = t_shape t ! 1
      in if n = 0 \<and> 0 < c then NonFinite
         else Finite \<lparr>t_dtype = t_dtype t, t_shape = [c],
                       t_vals = map (\<lambda>j. sum_list (map (\<lambda>i. t_vals t ! (i * c + j)) [0..<n])
                                          / real n) [0..<c]\<rparr>)"

definition reduce_mean_all :: "real list \<Rightarrow> real numeric" where
  "reduce_mean_all vs =
     (if vs = [] then NonFinite
      else Finite (sum_list vs / real (length vs)))"

text \<open>
  \<open>tf.cast\<close> of a value to an element type: a floating type keeps it, \<open>bool\<close> tells whether it
  is not zero, an integer type truncates it towards zero.
\<close>

definition cast_to :: "dtype \<Rightarrow> real \<Rightarrow> real" where
  "cast_to dt x =
     (if is_floating dt then x
      else if dt = Bool then (if x = 0 then 0 else 1)
      else if 0 \<le> x then of_int \<lfloor>x\<rfloor> else of_int \<lceil>x\<rceil>)"

text \<open>
  The part of \<open>classifier_score\<close> after the logits of the whole batch have been put
  together: the rank check, the computation in double precision, and the cast of the
  score to the element type of the logits. The result is that element type and the
  score.
\<close>

definition score_from_logits :: "tensor \<Rightarrow> error + (dtype \<times> real) numeric" where
  "score_from_logits logits =
     (if length (t_shape logits) \<noteq> 2 then Inl (ValueError ''Shape must have rank 2'')
      else
        (let logits_dtype = t_dtype logits;
             logits = (if logits_dtype \<noteq> Float64 then logits\<lparr>t_dtype := Float64\<rparr> else logits);
             p = rowwise softmax_row logits
         in case reduce_mean0 p of
              NonFinite \<Rightarrow> Inr NonFinite
            | Finite q \<Rightarrow>
                (case kl_divergence p logits q of
                   Inl e \<Rightarrow> Inl e
                 | Inr kl \<Rightarrow>
                     (if length (c_shape kl) \<noteq> 1 then Inl (ValueError ''Shape must have rank 1'')
                      else
                        (case c_vals kl of
                           NonFinite \<Rightarrow> Inr NonFinite
                         | Finite vs \<Rightarrow>
                        (case reduce_mean_all vs of
                           NonFinite \<Rightarrow> Inr NonFinite
                         | Finite log_score \<Rightarrow>
                             Inr (Finite (logits_dtype, cast_to logits_dtype (exp log_score)))))))))"

text \<open>
  \<open>classifier_score\<close>: the images are split, the parts stacked, the classifier mapped
  over them, and its outputs concatenated into the logits of the whole batch.
\<close>

definition batched_outputs :: "tensor \<Rightarrow> (tensor \<Rightarrow> error + tensor) \<Rightarrow> nat \<Rightarrow> error + tensor" where
  "batched_outputs images classifier_fn num_batches =
     (case split0 images num_batches of
        Inl e \<Rightarrow> Inl e
      | Inr generated_images_list \<Rightarrow>
     (case stack generated_images_list of
        Inl e \<Rightarrow> Inl e
      | Inr elems \<Rightarrow>
     (case map_fn classifier_fn elems of
        Inl e \<Rightarrow> Inl e
      | Inr logits \<Rightarrow>
     (case unstack logits of
        Inl e \<Rightarrow> Inl e
      | Inr parts \<Rightarrow> concat0 parts))))"

definition classifier_score ::
  "tensor \<Rightarrow> (tensor \<Rightarrow> error + tensor) \<Rightarrow> nat \<Rightarrow> error + (dtype \<times> real) numeric" where
  "classifier_score images classifier_fn num_batches =
     (case batched_outputs images classifier_fn num_batches of
        Inl e \<Rightarrow> Inl e
      | Inr logits \<Rightarrow> score_from_logits logits)"

text \<open>
  A classifier that treats every image of a batch on its own: with \<open>g\<close> the output for one
  image, of \<open>D\<close> values and element type \<open>dt\<close>, its output for a batch of \<open>k\<close> images of shape
  \<open>rest\<close> is the \<open>k\<close> outputs for the images, in order.
\<close>

definition per_image ::
  "(tensor \<Rightarrow> error + tensor) \<Rightarrow> (real list \<Rightarrow> real list) \<Rightarrow> nat \<Rightarrow> dtype \<Rightarrow> nat list \<Rightarrow> bool" where
  "per_image fn g D dt rest =
     ((\<forall>img. length (g img) = D) \<and>
      (\<forall>t k. t_shape t = k # rest \<and> t_ok t \<longrightarrow>
         fn t = Inr \<lparr>t_dtype = dt, t_shape = [k, D],
                     t_vals = concat (map g (rows_of k (prod_list rest) (t_vals t)))\<rparr>))"

text \<open>
  The score as the specification states it, for logits \<open>L i j\<close> of \<open>N\<close> images and \<open>D\<close>
  classes: with \<open>p\<close> the softmax of the logits of an image and \<open>q\<close> the mean of \<open>p\<close> over the
  images, the exponential of the mean over the images of
  \<open>KL(p || q) = sum (p * log (p / q))\<close>.
\<close>

definition softmax_at :: "nat \<Rightarrow> (nat \<Rightarrow> nat \<Rightarrow> real) \<Rightarrow> nat \<Rightarrow> nat \<Rightarrow> real" where
  "softmax_at D L i j = exp (L i j) / (\<Sum>k<D. exp (L i k))"

definition mean_probability :: "nat \<Rightarrow> nat \<Rightarrow> (nat \<Rightarrow> nat \<Rightarrow> real) \<Rightarrow> nat \<Rightarrow> real" where
  "mean_probability N D L j = (\<Sum>i<N. softmax_at D L i j) / real N"

definition kl_at :: "nat \<Rightarrow> nat \<Rightarrow> (nat \<Rightarrow> nat \<Rightarrow> real) \<Rightarrow> nat \<Rightarrow> real" where
  "kl_at N D L i =
     (\<Sum>j<D. softmax_at D L i j * ln (softmax_at D L i j / mean_probability N D L j))"

definition exp_mean_kl :: "nat \<Rightarrow> nat \<Rightarrow> (nat \<Rightarrow> nat \<Rightarrow> real) \<Rightarrow> real" where
  "exp_mean_kl N D L = exp ((\<Sum>i<N. kl_at N D L i) / real N)"

text \<open>
  A classifier whose output for an image depends on the other images of its batch: it
  flattens each image and subtracts the mean image of the batch, as a network that
  normalises over the batch does.
\<close>

definition centred_classifier :: "tensor \<Rightarrow> error + tensor" where
  "centred_classifier t =
     (let k = hd (t_shape t); d = prod_list (tl (t_shape t)); vs = t_vals t
      in Inr \<lparr>t_dtype = Float32, t_shape = [k, d],
                t_vals = concat (map (\<lambda>i. map (\<lambda>j. vs ! (i * d + j)
                                       - sum_list (map (\<lambda>i'. vs ! (i' * d + j)) [0..<k]) / real k)
                                     [0..<d]) [0..<k])\<rparr>)"

subsection \<open>Matrices\<close>

text \<open>
  The entry at row \<open>i\<close> and column \<open>j\<close> of a tensor of rank 2, and the tensor of rank 2 with
  given entries.
\<close>

definition entry :: "tensor \<Rightarrow> nat \<Rightarrow> nat \<Rightarrow> real" where
  "entry t i j = t_vals t ! (i * (t_shape t ! 1) + j)"

definition matrix :: "dtype \<Rightarrow> nat \<Rightarrow> nat \<Rightarrow> (nat \<Rightarrow> nat \<Rightarrow> real) \<Rightarrow> tensor" where
  "matrix dt r c f =
     \<lparr>t_dtype = dt, t_shape = [r, c],
      t_vals = concat (map (\<lambda>i. map (\<lambda>j. f i j) [0..<c]) [0..<r])\<rparr>"

text \<open>
  \<open>tf.matmul(a, b, transpose_a, transpose_b)\<close> of two tensors of rank 2 and one element
  type, whose inner dimensions must agree.
\<close>

definition matmul :: "tensor \<Rightarrow> tensor \<Rightarrow> bool \<Rightarrow> bool \<Rightarrow> error + tensor" where
  "matmul a b transpose_a transpose_b =
     (if length (t_shape a) \<noteq> 2 \<or> length (t_shape b) \<noteq> 2
        then Inl (ValueError ''Shape must be rank 2'')
      else if t_dtype a \<noteq> t_dtype b
        then Inl (TypeError ''Input of Op has type that does not match'')
      else
        (let A = (if transpose_a then (\<lambda>i k. entry a k i) else entry a);
             B = (if transpose_b then (\<lambda>k j. entry b j k) else entry b);
             r = t_shape a ! (if transpose_a then 1 else 0);
             ka = t_shape a ! (if transpose_a then 0 else 1);
             kb = t_shape b ! (if transpose_b then 1 else 0);
             c = t_shape b ! (if transpose_b then 0 else 1)
         in if ka \<noteq> kb then Inl (ValueError ''Dimensions must be equal'')
            else Inr (matrix (t_dtype a) r c (\<lambda>i j. \<Sum>k<ka. A i k * B k j))))"

text \<open>
  \<open>tf.diag\<close> of a vector is the square matrix with the vector on its diagonal; of a tensor
  of another rank it is a tensor that the matrix product after it rejects.
\<close>

definition diag :: "tensor \<Rightarrow> error + tensor" where
  "diag s =
     (case t_shape s of
        [n] \<Rightarrow> Inr (matrix (t_dtype s) n n (\<lambda>i j. if i = j then t_vals s ! i else 0))
      | _ \<Rightarrow> Inl (ValueError ''Shape must be rank 2''))"


subsection \<open>The square root of a symmetric matrix\<close>

text \<open>
  \<open>_symmetric_matrix_square_root\<close>. \<open>tf.svd\<close> is TensorFlow's and is a parameter of the
  model: from a matrix to its singular values \<open>s\<close> and the matrices \<open>u\<close> and \<open>v\<close>, or an
  error. A singular value below \<open>eps\<close> is kept as it is, any other one is replaced by its
  square root; the square root of a negative number is NaN.
\<close>

definition clamp_sqrt :: "real \<Rightarrow> real \<Rightarrow> real" where
  "clamp_sqrt eps x = (if x < eps then x else sqrt x)"

definition symmetric_matrix_square_root ::
  "(tensor \<Rightarrow> error + tensor \<times> tensor \<times> tensor) \<Rightarrow> tensor \<Rightarrow> real
     \<Rightarrow> error + tensor numeric" where
  "symmetric_matrix_square_root svd mat eps =
     (case svd mat of
        Inl e \<Rightarrow> Inl e
      | Inr (s, u, v) \<Rightarrow>
          (if list_ex (\<lambda>x. \<not> x < eps \<and> x < 0) (t_vals s) then Inr NonFinite
           else
             (let si = map_t (clamp_sqrt eps) s
              in case diag si of
                   Inl e \<Rightarrow> Inl e
                 | Inr d \<Rightarrow>
                     (case matmul u d False False of
                        Inl e \<Rightarrow> Inl e
                      | Inr ud \<Rightarrow>
                          (case matmul ud v False True of
                             Inl e \<Rightarrow> Inl e
                           | Inr r \<Rightarrow> Inr (Finite r))))))"

text \<open>The default \<open>eps\<close> of \<open>_symmetric_matrix_square_root\<close>, \<open>1e-10\<close>.\<close>

definition default_eps :: real where
  "default_eps = 1 / 10 ^ 10"

text \<open>
  What the properties of the square root need of \<open>tf.svd\<close>, for a square matrix \<open>mat\<close> of
  dimension \<open>n\<close>: it returns \<open>n\<close> singular values, none negative, and two orthogonal
  matrices \<open>u\<close> and \<open>v\<close>, of the element type of \<open>mat\<close>, with \<open>mat = u diag(s) v\<^sup>T\<close>.
\<close>

definition orthogonal :: "nat \<Rightarrow> tensor \<Rightarrow> bool" where
  "orthogonal n u =
     (\<forall>i<n. \<forall>j<n. (\<Sum>k<n. entry u k i * entry u k j) = (if i = j then 1 else 0)
                \<and> (\<Sum>k<n. entry u i k * entry u j k) = (if i = j then 1 else 0))"

definition svd_of :: "nat \<Rightarrow> tensor \<Rightarrow> tensor \<times> tensor \<times> tensor \<Rightarrow> bool" where
  "svd_of n mat suv =
     (case suv of (s, u, v) \<Rightarrow>
        t_shape s = [n] \<and> t_shape u = [n, n] \<and> t_shape v = [n, n]
        \<and> length (t_vals s) = n
        \<and> t_dtype s = t_dtype mat \<and> t_dtype u = t_dtype mat \<and> t_dtype v = t_dtype mat
        \<and> (\<forall>k<n. 0 \<le> t_vals s ! k)
        \<and> orthogonal n u \<and> orthogonal n v
        \<and> (\<forall>i<n. \<forall>j<n. entry mat i j = (\<Sum>k<n. entry u i k * t_vals s ! k * entry v j k)))"

text \<open>
  A square matrix of dimension \<open>n\<close> is symmetric; it is positive semidefinite; all its
  eigenvalues are at least \<open>eps\<close>.
\<close>

definition symmetric :: "nat \<Rightarrow> tensor \<Rightarrow> bool" where
  "symmetric n mat = (\<forall>i<n. \<forall>j<n. entry mat i j = entry mat j i)"

definition psd :: "nat \<Rightarrow> tensor \<Rightarrow> bool" where
  "psd n mat = (\<forall>x. 0 \<le> (\<Sum>i<n. \<Sum>j<n. x i * entry mat i j * x j))"

definition eigenvalues_at_least :: "nat \<Rightarrow> tensor \<Rightarrow> real \<Rightarrow> bool" where
  "eigenvalues_at_least n mat eps =
     (\<forall>x lam. (\<exists>i<n. x i \<noteq> 0) \<and> (\<forall>i<n. (\<Sum>j<n. entry mat i j * x j) = lam * x i)
        \<longrightarrow> eps \<le> lam)"

text \<open>
  Square matrices of dimension \<open>n\<close> as functions of the row and the column that are 0
  outside the matrix, with their product, transpose, unit and diagonal matrices: the form
  in which the algebra of the square root is done. \<open>of_t n t\<close> is the matrix of a tensor.
\<close>

definition mk :: "nat \<Rightarrow> (nat \<Rightarrow> nat \<Rightarrow> real) \<Rightarrow> nat \<Rightarrow> nat \<Rightarrow> real" where
  "mk n f = (\<lambda>i j. if i < n \<and> j < n then f i j else 0)"

definition mm :: "nat \<Rightarrow> (nat \<Rightarrow> nat \<Rightarrow> real) \<Rightarrow> (nat \<Rightarrow> nat \<Rightarrow> real) \<Rightarrow> nat \<Rightarrow> nat \<Rightarrow> real" where
  "mm n A B = mk n (\<lambda>i j. \<Sum>k<n. A i k * B k j)"

definition mtr :: "nat \<Rightarrow> (nat \<Rightarrow> nat \<Rightarrow> real) \<Rightarrow> nat \<Rightarrow> nat \<Rightarrow> real" where
  "mtr n A = mk n (\<lambda>i j. A j i)"

definition mone :: "nat \<Rightarrow> nat \<Rightarrow> nat \<Rightarrow> real" where
  "mone n = mk n (\<lambda>i j. if i = j then 1 else 0)"

definition dg :: "nat \<Rightarrow> (nat \<Rightarrow> real) \<Rightarrow> nat \<Rightarrow> nat \<Rightarrow> real" where
  "dg n s = mk n (\<lambda>i j. if i = j then s i else 0)"

definition of_t :: "nat \<Rightarrow> tensor \<Rightarrow> nat \<Rightarrow> nat \<Rightarrow> real" where
  "of_t n t = mk n (entry t)"

definition mv :: "nat \<Rightarrow> (nat \<Rightarrow> nat \<Rightarrow> real) \<Rightarrow> (nat \<Rightarrow> real) \<Rightarrow> nat \<Rightarrow> real" where
  "mv n A x = (\<lambda>i. \<Sum>j<n. A i j * x j)"

subsection \<open>The Frechet classifier distance\<close>














section \<open>Properties of the ensembling and cropping predictors\<close>

lemma foldl_fadd_Fin: "foldl fadd (Fin a) (map Fin xs) = Fin (a + sum_list xs)"
  by (induction xs arbitrary: a) (simp_all add: add.assoc)

lemma mean_col_Fin: "xs \<noteq> [] \<Longrightarrow> mean_col (map Fin xs) = Fin (sum_list xs / real (length xs))"
  by (simp add: mean_col_def foldl_fadd_Fin)

lemma concat_nth_block:
  "\<forall>xs \<in> set xss. length xs = L \<Longrightarrow> k < length xss \<Longrightarrow> i < L \<Longrightarrow>
     concat xss ! (k * L + i) = xss ! k ! i"
proof (induction xss arbitrary: k)
  case Nil then show ?case by simp
next
  case (Cons a xss)
  have La: "length a = L" using Cons.prems(1) by simp
  show ?case
  proof (cases k)
    case 0 with Cons.prems La show ?thesis by (simp add: nth_append)
  next
    case (Suc k')
    have "concat xss ! (k' * L + i) = xss ! k' ! i"
      using Cons.prems Suc by (intro Cons.IH) auto
    moreover have "Suc k' * L + i = L + (k' * L + i)" by simp
    moreover have "(a @ concat xss) ! (length a + (k' * L + i)) = concat xss ! (k' * L + i)"
      by (rule nth_append_length_plus)
    ultimately show ?thesis using Suc La by (simp add: add.assoc)
  qed
qed

lemma axis0_columns_stack:
  assumes "\<forall>p \<in> set ps. length (nd_vals p) = prod_list s"
  shows "axis0_columns (length ps) s (concat (map nd_vals ps)) =
         map (\<lambda>i. map (\<lambda>p. nd_vals p ! i) ps) [0..<prod_list s]"
proof -
  have *: "concat (map nd_vals ps) ! (k * prod_list s + i) = nd_vals (ps ! k) ! i"
    if "k < length ps" "i < prod_list s" for k i
    using concat_nth_block[of "map nd_vals ps" "prod_list s" k i] assms that by simp
  have "map (\<lambda>k. concat (map nd_vals ps) ! (k * prod_list s + i)) [0..<length ps]
        = map (\<lambda>p. nd_vals p ! i) ps" if "i < prod_list s" for i
  proof (rule nth_equalityI)
    show "length (map (\<lambda>k. concat (map nd_vals ps) ! (k * prod_list s + i)) [0..<length ps])
          = length (map (\<lambda>p. nd_vals p ! i) ps)" by simp
  next
    fix k assume "k < length (map (\<lambda>k. concat (map nd_vals ps) ! (k * prod_list s + i)) [0..<length ps])"
    then have k: "k < length ps" by simp
    show "map (\<lambda>k. concat (map nd_vals ps) ! (k * prod_list s + i)) [0..<length ps] ! k
          = map (\<lambda>p. nd_vals p ! i) ps ! k"
      using k *[OF k that] by simp
  qed
  then show ?thesis
    unfolding axis0_columns_def by simp
qed

lemma sum_list_ln:
  "\<forall>x \<in> set xs. 0 < x \<Longrightarrow> sum_list (map ln xs) = ln (prod_list xs :: real)"
proof (induction xs)
  case Nil then show ?case by simp
next
  case (Cons a xs)
  have "0 < prod_list xs" using Cons.prems by (induction xs) simp_all
  with Cons show ?case by (simp add: ln_mult)
qed

lemma gmean_col_pos:
  assumes "xs \<noteq> []" "\<forall>x \<in> set xs. (0::real) < x"
  shows "fexp (mean_col (map (flog \<circ> Fin) xs)) = Fin (root (length xs) (prod_list xs))"
proof -
  have "map (flog \<circ> Fin) xs = map Fin (map ln xs)"
    unfolding map_map by (rule map_cong) (use assms(2) in auto)
  then have "mean_col (map (flog \<circ> Fin) xs) = mean_col (map Fin (map ln xs))"
    by (rule arg_cong)
  also have "\<dots> = Fin (sum_list (map ln xs) / real (length (map ln xs)))"
    using assms(1) by (intro mean_col_Fin) simp
  also have "\<dots> = Fin (ln (prod_list xs) / real (length xs))"
    using assms(2) by (simp add: sum_list_ln)
  finally have m: "mean_col (map (flog \<circ> Fin) xs) = Fin (ln (prod_list xs) / real (length xs))" .
  have p: "0 < prod_list xs" using assms(2) by (induction xs) simp_all
  have n: "0 < length xs" using assms(1) by simp
  show ?thesis unfolding m using p n
    by (simp add: root_powr_inverse powr_def field_simps)
qed

lemma np_array_same_shape:
  assumes "\<forall>p \<in> set ps. nd_shape p = s"
  shows "np_array ps t =
         Inr (if ps = [] then \<lparr>nd_dtype = t, nd_shape = [0], nd_vals = []\<rparr>
              else \<lparr>nd_dtype = t, nd_shape = length ps # s, nd_vals = concat (map nd_vals ps)\<rparr>)"
  using assms by (cases ps) (auto simp: np_array_def list_all_iff)

lemma reduce_stack:
  assumes "\<forall>p \<in> set ps. nd_shape p = s \<and> nd_ok p"
  shows "reduce_axis0 g (map_nd f \<lparr>nd_dtype = t, nd_shape = length ps # s,
                                   nd_vals = concat (map nd_vals ps)\<rparr>)
         = Inr \<lparr>nd_dtype = t, nd_shape = s,
                nd_vals = map (\<lambda>i. g (map (\<lambda>p. f (nd_vals p ! i)) ps)) [0..<prod_list s]\<rparr>"
proof -
  let ?qs = "map (map_nd f) ps"
  have len: "\<forall>q \<in> set ?qs. length (nd_vals q) = prod_list s"
    using assms by (auto simp: map_nd_def nd_ok_def)
  have c: "map f (concat (map nd_vals ps)) = concat (map nd_vals ?qs)"
    by (simp add: map_concat map_nd_def comp_def)
  have "axis0_columns (length ps) s (map f (concat (map nd_vals ps)))
        = map (\<lambda>i. map (\<lambda>q. nd_vals q ! i) ?qs) [0..<prod_list s]"
    unfolding c using axis0_columns_stack[OF len] by simp
  also have "\<dots> = map (\<lambda>i. map (\<lambda>p. f (nd_vals p ! i)) ps) [0..<prod_list s]"
    using assms by (auto simp: map_nd_def nd_ok_def)
  finally show ?thesis
    by (simp add: reduce_axis0_def map_nd_def comp_def)
qed

lemma map_nd_ident: "map_nd (\<lambda>a. a) x = x"
  by (simp add: map_nd_def)

lemma reduce_empty:
  "reduce_axis0 g (map_nd f \<lparr>nd_dtype = t, nd_shape = [0], nd_vals = []\<rparr>)
   = Inr \<lparr>nd_dtype = t, nd_shape = [], nd_vals = [g []]\<rparr>"
  by (simp add: reduce_axis0_def map_nd_def axis0_columns_def)

lemma ensemble_unknown:
  assumes "en \<notin> {''mean'', ''gmean'', ''log_mean''}"
  shows "\<exists>e. ensemble en x = Inl e"
proof -
  have n: "en \<noteq> ''mean''" "en \<noteq> ''gmean''" "en \<noteq> ''log_mean''"
    using assms by blast+
  show ?thesis
    unfolding ensemble_def
    by (cases "reduce_axis0 mean_col x"; cases "gmean x";
        cases "reduce_axis0 mean_col (map_nd (flog \<circ> zero_guard) x)")
       (simp_all only: sum.case n if_False, blast+)
qed

lemma predict_unknown_fails:
  assumes "en \<notin> {''mean'', ''gmean'', ''log_mean''}"
  shows "\<exists>e. EnsemblePredictor_predict predictors X en = Inl e"
proof (cases "run_predictors predictors X")
  case (Inl e) then show ?thesis by (simp add: EnsemblePredictor_predict_def)
next
  case (Inr mp)
  show ?thesis
  proof (cases "np_array mp Float32")
    case (Inl e) with Inr show ?thesis by (simp add: EnsemblePredictor_predict_def)
  next
    case (Inr stacked)
    with \<open>run_predictors predictors X = Inr mp\<close> ensemble_unknown[OF assms, of stacked]
    show ?thesis by (simp add: EnsemblePredictor_predict_def)
  qed
qed

lemma ensemble_stack:
  fixes t :: dtype
  assumes "ps \<noteq> []" "\<forall>p \<in> set ps. nd_shape p = s \<and> nd_ok p"
  defines "x \<equiv> \<lparr>nd_dtype = t, nd_shape = length ps # s, nd_vals = concat (map nd_vals ps)\<rparr>"
  defines "out \<equiv> \<lambda>c. \<lparr>nd_dtype = t, nd_shape = s, nd_vals = map (\<lambda>i. c (map (\<lambda>p. nd_vals p ! i) ps)) [0..<prod_list s]\<rparr>"
  shows "ensemble en x =
     (if en = ''mean'' then Inr (out mean_col)
      else if en = ''gmean'' then Inr (out (\<lambda>col. fexp (mean_col (map flog col))))
      else if en = ''log_mean'' then Inr (out (\<lambda>col. mean_col (map (\<lambda>a. flog (zero_guard a)) col)))
      else Inl (KeyError en))"
proof -
  have m: "reduce_axis0 mean_col x = Inr (out mean_col)"
    using reduce_stack[OF assms(2), of mean_col "\<lambda>a. a" t]
    by (simp add: map_nd_ident x_def out_def)
  have g: "gmean x = Inr (out (\<lambda>col. fexp (mean_col (map flog col))))"
    using reduce_stack[OF assms(2), of mean_col flog t]
    by (simp add: gmean_def x_def out_def map_nd_def comp_def)
  have l: "reduce_axis0 mean_col (map_nd (flog \<circ> zero_guard) x)
           = Inr (out (\<lambda>col. mean_col (map (\<lambda>a. flog (zero_guard a)) col)))"
    using reduce_stack[OF assms(2), of mean_col "flog \<circ> zero_guard" t]
    by (simp add: x_def out_def comp_def)
  show ?thesis by (simp add: ensemble_def m g l)
qed

lemma log_mean_col_nonneg:
  assumes "xs \<noteq> []" "\<forall>x \<in> set xs. (0::real) \<le> x"
  shows "mean_col (map (\<lambda>a. flog (zero_guard a)) (map Fin xs))
         = Fin (sum_list (map (\<lambda>x. ln (x + (if x = 0 then 1 else 0))) xs) / real (length xs))"
proof -
  let ?g = "\<lambda>x::real. ln (x + (if x = 0 then 1 else 0))"
  have e: "map (\<lambda>a. flog (zero_guard a)) (map Fin xs) = map Fin (map ?g xs)"
    unfolding map_map by (rule map_cong) (use assms(2) in \<open>auto simp: zero_guard_def\<close>)
  have "mean_col (map Fin (map ?g xs)) = Fin (sum_list (map ?g xs) / real (length (map ?g xs)))"
    using assms(1) by (intro mean_col_Fin) simp
  then show ?thesis unfolding e by simp
qed

text \<open>
  Claim C6. \<open>EnsemblePredictor.predict\<close> fails for every \<open>ensemble_type\<close> other than
  \<open>mean\<close>, \<open>gmean\<close> and \<open>log_mean\<close>; when the members have run and their arrays have
  one shape, the failure is the \<open>KeyError\<close> of the dictionary lookup (the configuration
  error of the specification). For the three recognised names the result is, position by
  position, the combination of the members' entries along the model axis: their mean,
  the exponential of the mean of their logarithms, or the mean of the logarithms of the
  zero-guarded entries \<open>x + (x == 0)\<close>. On finite entries these are the arithmetic mean, on
  positive entries the geometric mean (the root of the product), and on non-negative
  entries the mean of \<open>ln (x + (if x = 0 then 1 else 0))\<close>.
\<close>

theorem ensemble_predict_rules:
  "(en \<notin> {''mean'', ''gmean'', ''log_mean''} \<longrightarrow>
      (\<exists>e. EnsemblePredictor_predict predictors X en = Inl e))
   \<and> (run_predictors predictors X = Inr ps \<and> ps \<noteq> [] \<and> (\<forall>p \<in> set ps. nd_shape p = s \<and> nd_ok p) \<longrightarrow>
      EnsemblePredictor_predict predictors X en =
        (if en = ''mean'' then
           Inr \<lparr>nd_dtype = Float32, nd_shape = s,
                nd_vals = map (\<lambda>i. mean_col (map (\<lambda>p. nd_vals p ! i) ps)) [0..<prod_list s]\<rparr>
         else if en = ''gmean'' then
           Inr \<lparr>nd_dtype = Float32, nd_shape = s,
                nd_vals = map (\<lambda>i. fexp (mean_col (map flog (map (\<lambda>p. nd_vals p ! i) ps))))
                              [0..<prod_list s]\<rparr>
         else if en = ''log_mean'' then
           Inr \<lparr>nd_dtype = Float32, nd_shape = s,
                nd_vals = map (\<lambda>i. mean_col (map (\<lambda>a. flog (zero_guard a))
                                                (map (\<lambda>p. nd_vals p ! i) ps)))
                              [0..<prod_list s]\<rparr>
         else Inl (KeyError en)))
   \<and> (xs \<noteq> [] \<longrightarrow> mean_col (map Fin xs) = Fin (sum_list xs / real (length xs)))
   \<and> (xs \<noteq> [] \<and> (\<forall>x \<in> set xs. 0 < x) \<longrightarrow>
        fexp (mean_col (map flog (map Fin xs))) = Fin (root (length xs) (prod_list xs)))
   \<and> (xs \<noteq> [] \<and> (\<forall>x \<in> set xs. 0 \<le> x) \<longrightarrow>
        mean_col (map (\<lambda>a. flog (zero_guard a)) (map Fin xs))
        = Fin (sum_list (map (\<lambda>x. ln (x + (if x = 0 then 1 else 0))) xs) / real (length xs)))"
proof (intro conjI impI)
  assume "en \<notin> {''mean'', ''gmean'', ''log_mean''}"
  then show "\<exists>e. EnsemblePredictor_predict predictors X en = Inl e"
    by (rule predict_unknown_fails)
next
  assume a: "run_predictors predictors X = Inr ps \<and> ps \<noteq> [] \<and> (\<forall>p \<in> set ps. nd_shape p = s \<and> nd_ok p)"
  then have sh: "\<forall>p \<in> set ps. nd_shape p = s" by blast
  have st: "np_array ps Float32 = Inr \<lparr>nd_dtype = Float32, nd_shape = length ps # s,
                                        nd_vals = concat (map nd_vals ps)\<rparr>"
    using np_array_same_shape[OF sh, of Float32] a by simp
  have "EnsemblePredictor_predict predictors X en
        = ensemble en \<lparr>nd_dtype = Float32, nd_shape = length ps # s,
                        nd_vals = concat (map nd_vals ps)\<rparr>"
    using a st by (simp add: EnsemblePredictor_predict_def)
  also note ensemble_stack[of ps s en Float32]
  finally show "EnsemblePredictor_predict predictors X en =
        (if en = ''mean'' then
           Inr \<lparr>nd_dtype = Float32, nd_shape = s,
                nd_vals = map (\<lambda>i. mean_col (map (\<lambda>p. nd_vals p ! i) ps)) [0..<prod_list s]\<rparr>
         else if en = ''gmean'' then
           Inr \<lparr>nd_dtype = Float32, nd_shape = s,
                nd_vals = map (\<lambda>i. fexp (mean_col (map flog (map (\<lambda>p. nd_vals p ! i) ps))))
                              [0..<prod_list s]\<rparr>
         else if en = ''log_mean'' then
           Inr \<lparr>nd_dtype = Float32, nd_shape = s,
                nd_vals = map (\<lambda>i. mean_col (map (\<lambda>a. flog (zero_guard a))
                                                (map (\<lambda>p. nd_vals p ! i) ps)))
                              [0..<prod_list s]\<rparr>
         else Inl (KeyError en))"
    using a by simp
next
  assume "xs \<noteq> []" then show "mean_col (map Fin xs) = Fin (sum_list xs / real (length xs))"
    by (rule mean_col_Fin)
next
  assume "xs \<noteq> [] \<and> (\<forall>x \<in> set xs. 0 < x)"
  then show "fexp (mean_col (map flog (map Fin xs))) = Fin (root (length xs) (prod_list xs))"
    using gmean_col_pos[of xs] by (simp add: comp_def)
next
  assume "xs \<noteq> [] \<and> (\<forall>x \<in> set xs. 0 \<le> x)"
  then show "mean_col (map (\<lambda>a. flog (zero_guard a)) (map Fin xs))
        = Fin (sum_list (map (\<lambda>x. ln (x + (if x = 0 then 1 else 0))) xs) / real (length xs))"
    using log_mean_col_nonneg[of xs] by blast
qed

theorem ensemble_predict_rules_witness:
  "EnsemblePredictor_predict
     [\<lambda>_::unit. Inr \<lparr>nd_dtype = Float64, nd_shape = [2], nd_vals = [Fin 1, Fin 3]\<rparr>,
      \<lambda>_. Inr \<lparr>nd_dtype = Float64, nd_shape = [2], nd_vals = [Fin 3, Fin 5]\<rparr>] () ''mean''
   = Inr \<lparr>nd_dtype = Float32, nd_shape = [2], nd_vals = [Fin 2, Fin 4]\<rparr>
   \<and> (\<exists>e. EnsemblePredictor_predict
     [\<lambda>_::unit. Inr \<lparr>nd_dtype = Float64, nd_shape = [2], nd_vals = [Fin 1, Fin 3]\<rparr>,
      \<lambda>_. Inr \<lparr>nd_dtype = Float64, nd_shape = [2], nd_vals = [Fin 3, Fin 5]\<rparr>] () ''median''
       = Inl e)
   \<and> fexp (mean_col (map flog (map Fin [2, 8])))
       = Fin (root (length [2, 8 :: real]) (prod_list [2, 8]))
   \<and> mean_col (map (\<lambda>a. flog (zero_guard a)) (map Fin [0, 1])) = Fin 0"
proof -
  let ?A = "\<lparr>nd_dtype = Float64, nd_shape = [2], nd_vals = [Fin 1, Fin 3]\<rparr>"
  let ?B = "\<lparr>nd_dtype = Float64, nd_shape = [2], nd_vals = [Fin 3, Fin 5]\<rparr>"
  let ?P = "[\<lambda>_::unit. Inr ?A, \<lambda>_. Inr ?B] :: (unit \<Rightarrow> error + ndarray) list"
  have u: "[0..<2] = [0, Suc 0]" by (simp add: upt_rec)
  have 1: "EnsemblePredictor_predict ?P () ''mean''
           = Inr \<lparr>nd_dtype = Float32, nd_shape = [2], nd_vals = [Fin 2, Fin 4]\<rparr>"
    using ensemble_predict_rules[of "''mean''" ?P "()" "[?A, ?B]" "[2]" "[2, 8]"]
    by (simp add: nd_ok_def mean_col_def u)
  have 2: "\<exists>e. EnsemblePredictor_predict ?P () ''median'' = Inl e"
    using ensemble_predict_rules[of "''median''" ?P "()" "[?A, ?B]" "[2]" "[2, 8]"]
    by simp
  have h: "[2, 8 :: real] \<noteq> [] \<and> (\<forall>x \<in> set [2, 8 :: real]. 0 < x)" by simp
  have 3: "fexp (mean_col (map flog (map Fin [2, 8])))
           = Fin (root (length [2, 8 :: real]) (prod_list [2, 8]))"
    using ensemble_predict_rules[of "''mean''" ?P "()" "[?A, ?B]" "[2]" "[2, 8]"] h
    by blast
  have 4: "mean_col (map (\<lambda>a. flog (zero_guard a)) (map Fin [0, 1])) = Fin 0"
    using ensemble_predict_rules[of "''mean''" ?P "()" "[?A, ?B]" "[2]" "[0, 1]"]
    by simp
  from 1 2 3 4 show ?thesis by blast
qed

lemma reduce_axis0_dtype: "reduce_axis0 f x = Inr r \<Longrightarrow> nd_dtype r = nd_dtype x"
  by (cases "nd_shape x") (auto simp: reduce_axis0_def)

lemma gmean_dtype: "gmean x = Inr r \<Longrightarrow> nd_dtype r = nd_dtype x"
  by (cases "reduce_axis0 mean_col (map_nd flog x)")
     (auto simp: gmean_def map_nd_def dest!: reduce_axis0_dtype)

lemma ensemble_dtype:
  assumes "ensemble en x = Inr r" shows "nd_dtype r = nd_dtype x"
proof (cases "reduce_axis0 mean_col x")
  case (Inl e) with assms show ?thesis by (simp add: ensemble_def)
next
  case a: (Inr vm)
  show ?thesis
  proof (cases "gmean x")
    case (Inl e) with assms a show ?thesis by (simp add: ensemble_def)
  next
    case b: (Inr vg)
    show ?thesis
    proof (cases "reduce_axis0 mean_col (map_nd (flog \<circ> zero_guard) x)")
      case (Inl e) with assms a b show ?thesis by (simp add: ensemble_def)
    next
      case c: (Inr vl)
      have "nd_dtype vl = nd_dtype x" using reduce_axis0_dtype[OF c] by (simp add: map_nd_def)
      moreover have "r = vm \<or> r = vg \<or> r = vl"
        using assms a b c by (simp add: ensemble_def split: if_splits)
      ultimately show ?thesis using reduce_axis0_dtype[OF a] gmean_dtype[OF b] by auto
    qed
  qed
qed

lemma np_array_dtype: "np_array arrs t = Inr x \<Longrightarrow> nd_dtype x = t"
  by (cases arrs) (auto simp: np_array_def split: if_splits)

text \<open>
  Claim C9. Whatever the element types of the members' arrays and whatever the
  \<open>ensemble_type\<close>, an array returned by \<open>EnsemblePredictor.predict\<close> has element type
  \<open>float32\<close>: the stacked predictions are cast to it before they are combined, and the
  combinations keep the element type.
\<close>

theorem ensemble_predict_float32:
  assumes "EnsemblePredictor_predict predictors X en = Inr r"
  shows "nd_dtype r = Float32"
proof (cases "run_predictors predictors X")
  case (Inl e) with assms show ?thesis by (simp add: EnsemblePredictor_predict_def)
next
  case a: (Inr mp)
  show ?thesis
  proof (cases "np_array mp Float32")
    case (Inl e) with assms a show ?thesis by (simp add: EnsemblePredictor_predict_def)
  next
    case b: (Inr stacked)
    then have "ensemble en stacked = Inr r" using assms a by (simp add: EnsemblePredictor_predict_def)
    from ensemble_dtype[OF this] np_array_dtype[OF b] show ?thesis by simp
  qed
qed

theorem ensemble_predict_float32_witness:
  "nd_dtype \<lparr>nd_dtype = Float32, nd_shape = [1], nd_vals = [Fin 2]\<rparr> = Float32
   \<and> EnsemblePredictor_predict
     [\<lambda>_::unit. Inr \<lparr>nd_dtype = Float64, nd_shape = [1], nd_vals = [Fin 1]\<rparr>,
      \<lambda>_. Inr \<lparr>nd_dtype = Int32, nd_shape = [1], nd_vals = [Fin 3]\<rparr>] () ''mean''
     = Inr \<lparr>nd_dtype = Float32, nd_shape = [1], nd_vals = [Fin 2]\<rparr>"
proof -
  have e: "EnsemblePredictor_predict
     [\<lambda>_::unit. Inr \<lparr>nd_dtype = Float64, nd_shape = [1], nd_vals = [Fin 1]\<rparr>,
      \<lambda>_. Inr \<lparr>nd_dtype = Int32, nd_shape = [1], nd_vals = [Fin 3]\<rparr>] () ''mean''
     = Inr \<lparr>nd_dtype = Float32, nd_shape = [1], nd_vals = [Fin 2]\<rparr>"
    by (simp add: EnsemblePredictor_predict_def np_array_def ensemble_def reduce_axis0_def
                  gmean_def map_nd_def axis0_columns_def mean_col_def zero_guard_def upt_rec)
  from ensemble_predict_float32[OF e] e show ?thesis by simp
qed

text \<open>
  Claim C10. With \<open>number_of_crops\<close> below 1, \<open>CropPredictor._real_predict\<close> returns
  \<open>None\<close> for every input and raises nothing: its body has a branch for
  \<open>number_of_crops > 1\<close> and one for \<open>number_of_crops == 1\<close> only.
\<close>

theorem crop_predictor_below_one:
  assumes "number_of_crops < 1"
  shows "CropPredictor_real_predict number_of_crops one_crop get_bbox_10crop X = Inr None"
  using assms by (simp add: CropPredictor_real_predict_def)

theorem crop_predictor_below_one_witness:
  "(0::int) < 1 \<and> CropPredictor_real_predict 0 (\<lambda>(X::unit) (b::nat option). Inl (Other ''unused''))
      [] () = Inr None"
  using crop_predictor_below_one[of 0 "\<lambda>(X::unit) (b::nat option). Inl (Other ''unused'')" "[]" "()"]
  by simp

section \<open>Properties of the classifier runner and the preprocessing\<close>

text \<open>
  Claim C5. Once the images are valid and the classifier has run, \<open>run_inception\<close>
  returns the classifier's output unchanged when its rank is 2, and the flattened output
  exactly when its rank is not 2; flattening turns the shape \<open>b # ds\<close> into
  \<open>[b, prod ds]\<close>, one feature axis after the batch axis, and would leave an output of
  rank 2 as it is.
\<close>

theorem run_inception_rank2:
  assumes v: "validate_images images image_size = Inr images"
      and g: "graph_def = Some g \<or>
              (graph_def = None \<and> (\<exists>fn. default_graph_def_fn = Some fn \<and> fn () = Inr g))"
      and c: "run_image_classifier import_graph_def images g input_tensor output_tensor = Inr out"
  shows "(length (t_shape out) = 2 \<longrightarrow>
            run_inception import_graph_def images graph_def default_graph_def_fn image_size
              input_tensor output_tensor = Inr out)
       \<and> (length (t_shape out) \<noteq> 2 \<longrightarrow>
            run_inception import_graph_def images graph_def default_graph_def_fn image_size
              input_tensor output_tensor = flatten out)
       \<and> (\<forall>b ds. t_shape out = b # ds \<longrightarrow>
            flatten out = Inr (out\<lparr>t_shape := [b, prod_list ds]\<rparr>))
       \<and> (length (t_shape out) = 2 \<longrightarrow> flatten out = Inr out)"
proof -
  have r: "run_inception import_graph_def images graph_def default_graph_def_fn image_size
              input_tensor output_tensor
           = (if length (t_shape out) \<noteq> 2 then flatten out else Inr out)"
    using g
  proof
    assume "graph_def = Some g"
    with v c show ?thesis by (simp add: run_inception_def)
  next
    assume "graph_def = None \<and> (\<exists>fn. default_graph_def_fn = Some fn \<and> fn () = Inr g)"
    then obtain fn where "graph_def = None" "default_graph_def_fn = Some fn" "fn () = Inr g"
      by blast
    with v c show ?thesis by (simp add: run_inception_def)
  qed
  have f2: "flatten out = Inr out" if "length (t_shape out) = 2"
  proof -
    from that obtain b d where "t_shape out = [b, d]"
      by (metis length_0_conv length_Suc_conv numeral_2_eq_2)
    then show ?thesis by (simp add: flatten_def)
  qed
  show ?thesis using r f2 by (simp add: flatten_def)
qed

theorem run_inception_rank2_witness:
  "run_inception (\<lambda>(g::unit) (x::string \<times> tensor) (names::string list).
        Inr [\<lparr>t_dtype = Float32, t_shape = [1, 1, 1, 2], t_vals = [5, 7]\<rparr>])
     \<lparr>t_dtype = Float32, t_shape = [1, 2, 2, 1], t_vals = [0, 0, 0, 0]\<rparr>
     (Some ()) None 2 ''Mul:0'' ''pool_3:0''
   = Inr \<lparr>t_dtype = Float32, t_shape = [1, 2], t_vals = [5, 7]\<rparr>"
proof -
  let ?imp = "\<lambda>(g::unit) (x::string \<times> tensor) (names::string list).
        (Inr [\<lparr>t_dtype = Float32, t_shape = [1, 1, 1, 2], t_vals = [5, 7]\<rparr>] :: error + tensor list)"
  let ?im = "\<lparr>t_dtype = Float32, t_shape = [1, 2, 2, 1], t_vals = [0, 0, 0, 0]\<rparr>"
  let ?out = "\<lparr>t_dtype = Float32, t_shape = [1, 1, 1, 2], t_vals = [5, 7]\<rparr>"
  have v: "validate_images ?im 2 = Inr ?im" by (simp add: validate_images_def)
  have g: "Some () = Some () \<or>
      (Some () = None \<and> (\<exists>fn. (None :: (unit \<Rightarrow> error + unit) option) = Some fn \<and> fn () = Inr ()))"
    by simp
  have c: "run_image_classifier ?imp ?im () ''Mul:0'' ''pool_3:0'' = Inr ?out"
    by (simp add: run_image_classifier_def)
  from run_inception_rank2[OF v g c] show ?thesis by (simp add: flatten_def)
qed

lemma const_vals_map_t:
  "const_vals c t \<Longrightarrow> const_vals (f c) (map_t f t)"
  by (simp add: const_vals_def map_t_def)

lemma preprocess_batch:
  assumes r: "resize_keeps_constants resize"
      and s: "t_shape images = [b, ih, iw, ch]" "0 < ih" "0 < iw"
      and k: "const_vals c images"
  shows "\<exists>r. preprocess_image resize images h w = Inr r \<and> t_shape r = [b, h, w, ch]
             \<and> const_vals ((c - 128) / 128) r"
proof -
  let ?im = "if \<not> is_floating (t_dtype images) then to_float images else images"
  have s': "t_shape ?im = [b, ih, iw, ch]" and k': "const_vals c ?im"
    using s k by (simp_all add: to_float_def const_vals_def)
  from r s' s(2,3) k' obtain rz where rz: "resize ?im h w = Inr rz" "t_shape rz = [b, h, w, ch]"
      "const_vals c rz"
    unfolding resize_keeps_constants_def by blast
  have "preprocess_image resize images h w = Inr (map_t (\<lambda>x. (x - 128) / 128) rz)"
    using s rz(1) by (simp add: preprocess_image_def Let_def)
  moreover have "t_shape (map_t (\<lambda>x. (x - 128) / 128) rz) = [b, h, w, ch]"
    using rz(2) by (simp add: map_t_def)
  ultimately show ?thesis using const_vals_map_t[OF rz(3), of "\<lambda>x. (x - 128) / 128"] by simp
qed

lemma preprocess_single:
  assumes r: "resize_keeps_constants resize"
      and s: "t_shape images = [ih, iw, ch]" "0 < ih" "0 < iw"
      and k: "const_vals c images"
  shows "\<exists>r. preprocess_image resize images h w = Inr r \<and> t_shape r = [h, w, ch]
             \<and> const_vals ((c - 128) / 128) r"
proof -
  let ?im0 = "if \<not> is_floating (t_dtype images) then to_float images else images"
  let ?im = "expand_dims0 ?im0"
  have s': "t_shape ?im = [1, ih, iw, ch]" and k': "const_vals c ?im"
    using s k by (simp_all add: to_float_def const_vals_def expand_dims0_def)
  from r s' s(2,3) k' obtain rz where rz: "resize ?im h w = Inr rz" "t_shape rz = [1, h, w, ch]"
      "const_vals c rz"
    unfolding resize_keeps_constants_def by blast
  let ?out = "map_t (\<lambda>x. (x - 128) / 128) rz"
  have o: "t_shape ?out = [1, h, w, ch]" "const_vals ((c - 128) / 128) ?out"
    using rz(2) const_vals_map_t[OF rz(3), of "\<lambda>x. (x - 128) / 128"] by (simp_all add: map_t_def)
  have "preprocess_image resize images h w = squeeze0 ?out"
    using s rz(1) by (simp add: preprocess_image_def Let_def)
  moreover have "squeeze0 ?out = Inr (?out\<lparr>t_shape := [h, w, ch]\<rparr>)"
    using o(1) by (simp add: squeeze0_def)
  moreover have "const_vals ((c - 128) / 128) (?out\<lparr>t_shape := [h, w, ch]\<rparr>)"
    using o by (simp add: const_vals_def)
  ultimately show ?thesis by simp
qed

text \<open>
  Claim C7. With a bilinear resize that keeps constant images constant,
  \<open>preprocess_image\<close> maps images of constant value \<open>c\<close> to images of constant value
  \<open>(c - 128) / 128\<close>: 128 to 0, 255 to 127/128 (about 0.992) and 0 to -1. A batch of rank 4
  comes back with rank 4; a single image of rank 3 is promoted to a batch of one for the
  resize and comes back with rank 3.
\<close>

theorem preprocess_image_scale:
  assumes r: "resize_keeps_constants resize"
      and s: "t_shape images = [b, ih, iw, ch] \<or> t_shape images = [ih, iw, ch]" "0 < ih" "0 < iw"
      and k: "const_vals c images"
  shows "\<exists>r. preprocess_image resize images h w = Inr r
           \<and> t_shape r = (if length (t_shape images) = 3 then [h, w, ch] else [b, h, w, ch])
           \<and> const_vals ((c - 128) / 128) r
           \<and> (c = 128 \<longrightarrow> const_vals 0 r)
           \<and> (c = 255 \<longrightarrow> const_vals (127 / 128) r)
           \<and> (c = 0 \<longrightarrow> const_vals (- 1) r)"
  using s(1)
proof
  assume a: "t_shape images = [b, ih, iw, ch]"
  from preprocess_batch[OF r a s(2,3) k, of h w] obtain rr where
    "preprocess_image resize images h w = Inr rr" "t_shape rr = [b, h, w, ch]"
    "const_vals ((c - 128) / 128) rr" by blast
  then show ?thesis using a by (intro exI[of _ rr]) auto
next
  assume a: "t_shape images = [ih, iw, ch]"
  from preprocess_single[OF r a s(2,3) k, of h w] obtain rr where
    "preprocess_image resize images h w = Inr rr" "t_shape rr = [h, w, ch]"
    "const_vals ((c - 128) / 128) rr" by blast
  then show ?thesis using a by (intro exI[of _ rr]) auto
qed

theorem preprocess_image_scale_witness:
  "\<exists>r. preprocess_image
         (\<lambda>t h w. case t_shape t of
                     [b, ih, iw, ch] \<Rightarrow>
                       Inr \<lparr>t_dtype = Float32, t_shape = [b, h, w, ch],
                            t_vals = replicate (b * h * w * ch) (hd (t_vals t))\<rparr>
                   | _ \<Rightarrow> Inl (ValueError ''rank''))
         \<lparr>t_dtype = UInt8, t_shape = [1, 1, 1], t_vals = [255]\<rparr> 2 2 = Inr r
       \<and> t_shape r = [2, 2, 1] \<and> const_vals (127 / 128) r"
proof -
  let ?rs = "\<lambda>t h w. case t_shape t of
                     [b, ih, iw, ch] \<Rightarrow>
                       (Inr \<lparr>t_dtype = Float32, t_shape = [b, h, w, ch],
                            t_vals = replicate (b * h * w * ch) (hd (t_vals t))\<rparr> :: error + tensor)
                   | _ \<Rightarrow> Inl (ValueError ''rank'')"
  let ?im = "\<lparr>t_dtype = UInt8, t_shape = [1, 1, 1], t_vals = [255]\<rparr>"
  have r: "resize_keeps_constants ?rs"
    unfolding resize_keeps_constants_def
  proof (intro allI impI)
    fix t c b ih iw ch h w
    assume a: "t_shape t = [b, ih, iw, ch] \<and> 0 < ih \<and> 0 < iw \<and> const_vals c t"
    show "\<exists>r. ?rs t h w = Inr r \<and> t_shape r = [b, h, w, ch] \<and> const_vals c r"
    proof (cases "b * h * w * ch = 0")
      case True with a show ?thesis by (simp add: const_vals_def)
    next
      case False
      then have "0 < b * ih * iw * ch" using a by simp
      then obtain m where m: "b * ih * iw * ch = Suc m" by (cases "b * ih * iw * ch") simp_all
      have "t_vals t = replicate (b * ih * iw * ch) c"
        using a by (simp add: const_vals_def mult.assoc)
      then have "hd (t_vals t) = c" unfolding m by simp
      with a show ?thesis by (simp add: const_vals_def mult.assoc)
    qed
  qed
  have s: "t_shape ?im = [1, 1, 1, 1] \<or> t_shape ?im = [1, 1, 1]" by simp
  have k: "const_vals 255 ?im" by (simp add: const_vals_def)
  from preprocess_image_scale[OF r s _ _ k, of 2 2] show ?thesis by auto
qed

section \<open>Properties of the divergence and the classifier score\<close>

lemma block_0: "block k 0 xs = take k xs"
  by (simp add: block_def)

lemma block_Suc: "block k (Suc i) xs = block k i (drop k xs)"
  by (simp add: block_def add.commute)

lemma upt_Suc_shift: "[0..<Suc n] = 0 # map Suc [0..<n]"
  by (simp add: upt_conv_Cons map_Suc_upt del: upt_Suc)

lemma concat_blocks:
  "length xs = n * k \<Longrightarrow> concat (map (\<lambda>i. block k i xs) [0..<n]) = xs"
proof (induction n arbitrary: xs)
  case 0 then show ?case by simp
next
  case (Suc n)
  have "length (drop k xs) = n * k" using Suc.prems by simp
  from Suc.IH[OF this] have "concat (map (\<lambda>i. block k i (drop k xs)) [0..<n]) = drop k xs" .
  then show ?case
    unfolding upt_Suc_shift by (simp add: block_0 block_Suc comp_def)
qed

lemma blocks_concat:
  "\<forall>r \<in> set rs. length r = k \<Longrightarrow> map (\<lambda>i. block k i (concat rs)) [0..<length rs] = rs"
proof (induction rs)
  case Nil then show ?case by simp
next
  case (Cons r rs)
  then have "map (\<lambda>i. block k i (concat rs)) [0..<length rs] = rs" by simp
  moreover have "length r = k" using Cons.prems by simp
  ultimately show ?case
    unfolding length_Cons upt_Suc_shift by (simp add: block_0 block_Suc comp_def)
qed

lemma drop_concat_rows:
  "\<forall>r \<in> set rs. length r = k \<Longrightarrow> drop (a * k) (concat rs) = concat (drop a rs)"
proof (induction rs arbitrary: a)
  case Nil then show ?case by simp
next
  case (Cons r rs)
  show ?case
  proof (cases a)
    case 0 then show ?thesis by simp
  next
    case (Suc a')
    have "drop (Suc a' * k) (r @ concat rs) = drop (a' * k) (concat rs)"
      using Cons.prems by simp
    with Cons Suc show ?thesis by simp
  qed
qed

lemma take_concat_rows:
  "\<forall>r \<in> set rs. length r = k \<Longrightarrow> take (m * k) (concat rs) = concat (take m rs)"
proof (induction rs arbitrary: m)
  case Nil then show ?case by simp
next
  case (Cons r rs)
  show ?case
  proof (cases m)
    case 0 then show ?thesis by simp
  next
    case (Suc m')
    have "take (Suc m' * k) (r @ concat rs) = r @ take (m' * k) (concat rs)"
      using Cons.prems by simp
    with Cons Suc show ?thesis by simp
  qed
qed

lemma block_concat_rows:
  assumes "\<forall>r \<in> set rs. length r = k"
  shows "block (m * k) i (concat rs) = concat (block m i rs)"
proof -
  have "drop (i * (m * k)) (concat rs) = concat (drop (i * m) rs)"
    using drop_concat_rows[OF assms, of "i * m"] by (simp add: mult.assoc)
  moreover have "\<forall>r \<in> set (drop (i * m) rs). length r = k"
    using assms by (meson in_set_dropD)
  ultimately show ?thesis
    using take_concat_rows[of "drop (i * m) rs" k m] by (simp add: block_def)
qed

lemma rows_of_blocks: "rows_of n c vs = map (\<lambda>i. block c i vs) [0..<n]"
  by (simp add: rows_of_def block_def)

lemma rows_of_length: "length (rows_of n c vs) = n"
  by (simp add: rows_of_def)

lemma rows_of_row_length:
  "length vs = n * c \<Longrightarrow> r \<in> set (rows_of n c vs) \<Longrightarrow> length r = c"
proof -
  assume l: "length vs = n * c" and r: "r \<in> set (rows_of n c vs)"
  then obtain i where i: "i < n" "r = take c (drop (i * c) vs)" by (auto simp: rows_of_def)
  have "i * c + c \<le> n * c" using i(1)
    by (metis Suc_leI mult_Suc mult_le_mono1 add.commute)
  then show ?thesis using l i(2) by simp
qed

lemma concat_rows_of: "length vs = n * c \<Longrightarrow> concat (rows_of n c vs) = vs"
  unfolding rows_of_blocks by (rule concat_blocks)

lemma rows_of_concat:
  "\<forall>r \<in> set rs. length r = c \<Longrightarrow> rows_of (length rs) c (concat rs) = rs"
  unfolding rows_of_blocks by (rule blocks_concat)

lemma run_each_nth:
  "length xs = length ys \<Longrightarrow> \<forall>i < length xs. fn (xs ! i) = Inr (ys ! i)
   \<Longrightarrow> run_each fn xs = Inr ys"
proof (induction xs arbitrary: ys)
  case Nil then show ?case by simp
next
  case (Cons x xs)
  then obtain y ys' where ys: "ys = y # ys'" by (cases ys) simp_all
  have "0 < length (x # xs)" by simp
  from Cons.prems(2)[rule_format, OF this] have "fn x = Inr y" using ys by simp
  moreover have "run_each fn xs = Inr ys'"
  proof (rule Cons.IH)
    show "length xs = length ys'" using Cons.prems(1) ys by simp
    show "\<forall>i < length xs. fn (xs ! i) = Inr (ys' ! i)"
    proof (intro allI impI)
      fix i assume "i < length xs"
      then have "Suc i < length (x # xs)" by simp
      from Cons.prems(2)[rule_format, OF this]
      have "fn ((x # xs) ! Suc i) = Inr (ys ! Suc i)" .
      then show "fn (xs ! i) = Inr (ys' ! i)" using ys by simp
    qed
  qed
  ultimately show ?case using ys by simp
qed

lemma length_concat_const:
  "\<forall>r \<in> set rs. length r = c \<Longrightarrow> length (concat rs) = length rs * c"
  by (induction rs) simp_all

lemma length_block:
  "i < n \<Longrightarrow> length xs = n * k \<Longrightarrow> length (block k i xs) = k"
proof -
  assume i: "i < n" and l: "length xs = n * k"
  have "i * k + k \<le> n * k" using i
    by (metis Suc_leI mult_Suc mult_le_mono1 add.commute)
  then show ?thesis using l by (simp add: block_def)
qed

lemma set_block_subset: "set (block k i xs) \<subseteq> set xs"
  unfolding block_def by (meson set_take_subset set_drop_subset subset_trans)

lemma stack_same:
  assumes "ts \<noteq> []" "\<forall>t \<in> set ts. t_shape t = s \<and> t_dtype t = d"
  shows "stack ts = Inr \<lparr>t_dtype = d, t_shape = length ts # s, t_vals = concat (map t_vals ts)\<rparr>"
proof -
  from assms(1) obtain a rest where ts: "ts = a # rest" by (cases ts) simp_all
  have "list_all (\<lambda>b. t_shape b = t_shape a \<and> t_dtype b = t_dtype a) rest"
    using assms(2) ts by (simp add: list_all_iff)
  then show ?thesis using assms(2) ts by (simp add: stack_def)
qed

lemma sum_hd_shape:
  "\<forall>t \<in> set ts. t_shape t = m # s \<Longrightarrow> sum_list (map (\<lambda>b. hd (t_shape b)) ts) = length ts * m"
proof (induction ts)
  case Nil then show ?case by simp
next
  case (Cons a ts)
  then have "sum_list (map (\<lambda>b. hd (t_shape b)) ts) = length ts * m" by simp
  moreover have "hd (t_shape a) = m" using Cons.prems by simp
  ultimately show ?case by simp
qed

lemma concat0_same:
  assumes "ts \<noteq> []" "\<forall>t \<in> set ts. t_shape t = m # s \<and> t_dtype t = d"
  shows "concat0 ts = Inr \<lparr>t_dtype = d, t_shape = (length ts * m) # s,
                            t_vals = concat (map t_vals ts)\<rparr>"
proof -
  from assms(1) obtain a rest where ts: "ts = a # rest" by (cases ts) simp_all
  have sa: "t_shape a = m # s" and da: "t_dtype a = d" using assms(2) ts by simp_all
  have "\<forall>t \<in> set ts. t_shape t = m # s" using assms(2) by blast
  from sum_hd_shape[OF this]
  have sm: "sum_list (map (\<lambda>b. hd (t_shape b)) (a # rest)) = length (a # rest) * m"
    unfolding ts .
  have la: "list_all (\<lambda>b. t_shape b \<noteq> [] \<and> tl (t_shape b) = tl (t_shape a) \<and> t_dtype b = t_dtype a) rest"
    unfolding list_all_iff
  proof
    fix b assume "b \<in> set rest"
    then have "t_shape b = m # s \<and> t_dtype b = d" using assms(2) ts by simp
    then show "t_shape b \<noteq> [] \<and> tl (t_shape b) = tl (t_shape a) \<and> t_dtype b = t_dtype a"
      using sa da by simp
  qed
  have ne: "t_shape a \<noteq> []" using sa by simp
  have "concat0 (a # rest) = Inr \<lparr>t_dtype = t_dtype a,
           t_shape = sum_list (map (\<lambda>b. hd (t_shape b)) (a # rest)) # tl (t_shape a),
           t_vals = concat (map t_vals (a # rest))\<rparr>"
    unfolding concat0_def using la ne by (simp only: list.case if_True if_False)
  then show ?thesis unfolding sm unfolding ts using sa da by simp
qed

lemma concat_map_concat:
  "concat (map (\<lambda>x. concat (map g (f x))) xs) = concat (map g (concat (map f xs)))"
  by (induction xs) simp_all

lemma batched_outputs_per_image:
  assumes pi: "per_image fn g D dt rest"
      and sh: "t_shape images = N # rest" and ok: "t_ok images"
      and n: "0 < n" "N mod n = 0"
  shows "batched_outputs images fn n =
         (if dt = t_dtype images
          then Inr \<lparr>t_dtype = dt, t_shape = [N, D],
                    t_vals = concat (map g (rows_of N (prod_list rest) (t_vals images)))\<rparr>
          else Inl (TypeError ''Output of fn does not match the dtype of elems''))"
proof -
  define R where "R = prod_list rest"
  define m where "m = N div n"
  define vs where "vs = t_vals images"
  define rs where "rs = rows_of N R vs"
  define chunk where "chunk = (\<lambda>i. \<lparr>t_dtype = t_dtype images, t_shape = m # rest,
                                      t_vals = block (m * R) i vs\<rparr>)"
  define out where "out = (\<lambda>i. \<lparr>t_dtype = dt, t_shape = [m, D],
                                  t_vals = concat (map g (block m i rs))\<rparr>)"
  define elems where "elems = \<lparr>t_dtype = t_dtype images, t_shape = n # m # rest, t_vals = vs\<rparr>"
  define stacked where "stacked = \<lparr>t_dtype = dt, t_shape = n # [m, D],
                                    t_vals = concat (map t_vals (map out [0..<n]))\<rparr>"
  have N: "N = n * m" using n(2) unfolding m_def by (metis mod_0_imp_dvd dvd_mult_div_cancel)
  have lvs: "length vs = N * R" using ok sh by (simp add: t_ok_def vs_def R_def)
  have lvs': "length vs = n * (m * R)" using lvs N by (simp add: mult.assoc)
  have lrs: "length rs = N" by (simp add: rs_def rows_of_length)
  have lrs': "length rs = n * m" using lrs N by simp
  have rrs: "\<forall>r \<in> set rs. length r = R"
    using rows_of_row_length[OF lvs] by (auto simp: rs_def)
  have crs: "concat rs = vs" unfolding rs_def by (rule concat_rows_of[OF lvs])
  have sp: "split0 images n = Inr (map chunk [0..<n])"
    using sh n by (simp add: split0_def chunk_def m_def R_def vs_def)
  have ne: "map chunk [0..<n] \<noteq> []" using n by simp
  have st: "stack (map chunk [0..<n]) = Inr elems"
  proof -
    have "concat (map t_vals (map chunk [0..<n])) = vs"
      using concat_blocks[OF lvs'] by (simp add: chunk_def comp_def)
    moreover have "\<forall>t \<in> set (map chunk [0..<n]). t_shape t = m # rest \<and> t_dtype t = t_dtype images"
      by (simp add: chunk_def)
    ultimately show ?thesis
      using stack_same[OF ne, of "m # rest" "t_dtype images"] by (simp add: elems_def)
  qed
  have us: "unstack elems = Inr (map chunk [0..<n])"
    by (simp add: unstack_def chunk_def R_def elems_def)
  have fnc: "fn (chunk i) = Inr (out i)" if "i < n" for i
  proof -
    have "length (t_vals (chunk i)) = m * R"
      using length_block[OF that lvs'] by (simp add: chunk_def)
    then have "t_ok (chunk i)" by (simp add: t_ok_def chunk_def R_def)
    moreover have "t_shape (chunk i) = m # rest" by (simp add: chunk_def)
    ultimately have "fn (chunk i) = Inr \<lparr>t_dtype = dt, t_shape = [m, D],
                     t_vals = concat (map g (rows_of m (prod_list rest) (t_vals (chunk i))))\<rparr>"
      using pi unfolding per_image_def by blast
    moreover have "t_vals (chunk i) = concat (block m i rs)"
      using block_concat_rows[OF rrs, of m i] crs by (simp add: chunk_def)
    moreover have "rows_of m R (concat (block m i rs)) = block m i rs"
    proof -
      have "length (block m i rs) = m" using length_block[OF that lrs'] .
      moreover have "\<forall>r \<in> set (block m i rs). length r = R"
        using rrs set_block_subset[of m i rs] by blast
      ultimately show ?thesis using rows_of_concat[of "block m i rs" R] by simp
    qed
    ultimately show ?thesis by (simp add: out_def R_def)
  qed
  have re: "run_each fn (map chunk [0..<n]) = Inr (map out [0..<n])"
    by (rule run_each_nth) (simp_all add: fnc)
  have neo: "map out [0..<n] \<noteq> []" using n by simp
  have so: "stack (map out [0..<n]) = Inr stacked"
    using stack_same[OF neo, of "[m, D]" dt] by (simp add: out_def stacked_def)
  have la: "list_all (\<lambda>y. t_dtype y = t_dtype elems) (map out [0..<n]) \<longleftrightarrow> dt = t_dtype images"
    using n(1) by (auto simp: list_all_iff out_def elems_def)
  have mf: "map_fn fn elems = Inr stacked" if "dt = t_dtype images"
    using that by (simp add: map_fn_def us re so la)
  have mf': "map_fn fn elems = Inl (TypeError ''Output of fn does not match the dtype of elems'')"
    if "dt \<noteq> t_dtype images"
    using that by (simp add: map_fn_def us re la)
  have lout: "length (t_vals (out i)) = m * D" if "i < n" for i
  proof -
    have "length (block m i rs) = m" using length_block[OF that lrs'] .
    moreover have "\<forall>r \<in> set (map g (block m i rs)). length r = D"
      using pi unfolding per_image_def by simp
    ultimately show ?thesis
      using length_concat_const[of "map g (block m i rs)" D] by (simp add: out_def)
  qed
  have uo: "unstack stacked = Inr (map out [0..<n])"
  proof -
    have "\<forall>r \<in> set (map t_vals (map out [0..<n])). length r = m * D"
      using lout by auto
    from blocks_concat[OF this]
    have "map (\<lambda>i. block (m * D) i (concat (map t_vals (map out [0..<n])))) [0..<n]
          = map t_vals (map out [0..<n])" by simp
    then have b: "block (m * D) i (concat (map t_vals (map out [0..<n]))) = t_vals (out i)"
      if "i < n" for i
      using that by (simp add: list_eq_iff_nth_eq)
    have "map (\<lambda>i. \<lparr>t_dtype = dt, t_shape = [m, D],
                     t_vals = block (m * D) i (concat (map t_vals (map out [0..<n])))\<rparr>) [0..<n]
          = map out [0..<n]"
    proof (rule map_cong[OF refl])
      fix i assume "i \<in> set [0..<n]"
      then have "i < n" by simp
      from b[OF this] show "\<lparr>t_dtype = dt, t_shape = [m, D],
                     t_vals = block (m * D) i (concat (map t_vals (map out [0..<n])))\<rparr> = out i"
        by (simp add: out_def)
    qed
    then show ?thesis by (simp add: unstack_def stacked_def)
  qed
  have co: "concat0 (map out [0..<n]) =
            Inr \<lparr>t_dtype = dt, t_shape = [N, D], t_vals = concat (map g rs)\<rparr>"
  proof -
    have "concat (map t_vals (map out [0..<n])) = concat (map (\<lambda>i. concat (map g (block m i rs))) [0..<n])"
      by (simp add: out_def comp_def)
    also have "\<dots> = concat (map g (concat (map (\<lambda>i. block m i rs) [0..<n])))"
      by (rule concat_map_concat)
    also have "\<dots> = concat (map g rs)" using concat_blocks[OF lrs'] by simp
    finally have v: "concat (map t_vals (map out [0..<n])) = concat (map g rs)" .
    have "\<forall>t \<in> set (map out [0..<n]). t_shape t = m # [D] \<and> t_dtype t = dt"
      by (simp add: out_def)
    from concat0_same[OF neo this] show ?thesis using v N by simp
  qed
  show ?thesis
  proof (cases "dt = t_dtype images")
    case True
    then show ?thesis
      by (simp add: batched_outputs_def sp st mf uo co rs_def R_def vs_def)
  next
    case False
    then show ?thesis
      by (simp add: batched_outputs_def sp st mf')
  qed
qed

lemma nth_concat_rows:
  assumes "\<forall>r \<in> set rs. length r = c" "i < length rs" "j < c"
  shows "concat rs ! (i * c + j) = rs ! i ! j"
  using assms
proof (induction rs arbitrary: i)
  case Nil then show ?case by simp
next
  case (Cons r rs)
  have lr: "length r = c" using Cons.prems(1) by simp
  show ?case
  proof (cases i)
    case 0 with Cons.prems lr show ?thesis by (simp add: nth_append)
  next
    case (Suc i')
    have "concat rs ! (i' * c + j) = rs ! i' ! j"
      using Cons.prems Suc by (intro Cons.IH) auto
    moreover have "(r @ concat rs) ! (length r + (i' * c + j)) = concat rs ! (i' * c + j)"
      by (rule nth_append_length_plus)
    ultimately show ?thesis using Suc lr by (simp add: add.assoc)
  qed
qed

lemma rows_of_nth:
  assumes "length vs = n * c" "i < n" "j < c"
  shows "rows_of n c vs ! i ! j = vs ! (i * c + j)"
proof -
  have "i * c + c \<le> n * c" using assms(2)
    by (metis Suc_leI mult_Suc mult_le_mono1 add.commute)
  then show ?thesis using assms by (simp add: rows_of_def)
qed

lemma rows_of_nth_row:
  assumes "length vs = n * c" "i < n"
  shows "rows_of n c vs ! i = map (\<lambda>j. vs ! (i * c + j)) [0..<c]"
proof (rule nth_equalityI)
  have "rows_of n c vs ! i \<in> set (rows_of n c vs)" using assms(2) by (simp add: rows_of_length)
  from rows_of_row_length[OF assms(1) this]
  show l: "length (rows_of n c vs ! i) = length (map (\<lambda>j. vs ! (i * c + j)) [0..<c])" by simp
  fix j assume "j < length (rows_of n c vs ! i)"
  then have jc: "j < c" using l by simp
  show "rows_of n c vs ! i ! j = map (\<lambda>j. vs ! (i * c + j)) [0..<c] ! j"
    using rows_of_nth[OF assms jc] jc by simp
qed

lemma rowwise_nth:
  assumes sh: "t_shape t = [n, c]" and ok: "t_ok t" and f: "\<And>r. length (f r) = length r"
      and i: "i < n" and j: "j < c"
  shows "t_vals (rowwise f t) ! (i * c + j) = f (map (\<lambda>j. t_vals t ! (i * c + j)) [0..<c]) ! j"
proof -
  have l: "length (t_vals t) = n * c" using sh ok by (simp add: t_ok_def)
  let ?rs = "map f (rows_of n c (t_vals t))"
  have "\<forall>r \<in> set ?rs. length r = c"
    using rows_of_row_length[OF l] f by auto
  moreover have "i < length ?rs" using i by (simp add: rows_of_length)
  ultimately have "concat ?rs ! (i * c + j) = ?rs ! i ! j" using j by (rule nth_concat_rows)
  also have "\<dots> = f (rows_of n c (t_vals t) ! i) ! j" using i by (simp add: rows_of_length)
  finally show ?thesis using sh rows_of_nth_row[OF l i] by (simp add: rowwise_def)
qed

lemma rowwise_length:
  assumes sh: "t_shape t = [n, c]" and ok: "t_ok t" and f: "\<And>r. length (f r) = length r"
  shows "length (t_vals (rowwise f t)) = n * c"
proof -
  have l: "length (t_vals t) = n * c" using sh ok by (simp add: t_ok_def)
  have "\<forall>r \<in> set (map f (rows_of n c (t_vals t))). length r = c"
    using rows_of_row_length[OF l] f by auto
  from length_concat_const[OF this] show ?thesis using sh by (simp add: rowwise_def rows_of_length)
qed

lemma sum_list_upt: "sum_list (map h [0..<n]) = (\<Sum>k<n. h k)"
  by (simp add: sum_list_sum_nth atLeast0LessThan)

lemma at2_plain: "i < n \<Longrightarrow> j < c \<Longrightarrow> at2 n c vs i j = vs ! (i * c + j)"
  by (auto simp: at2_def)

lemma at1_plain: "j < c \<Longrightarrow> at1 c vs j = vs ! j"
  by (auto simp: at1_def)

lemma softmax_row_length: "length (softmax_row r) = length r"
  by (simp add: softmax_row_def)

lemma log_softmax_row_length: "length (log_softmax_row r) = length r"
  by (simp add: log_softmax_row_def)

subsection \<open>The checks and the result of the divergence\<close>



lemma list_ex_at1: "list_ex (\<lambda>j. at1 c vs j \<le> 0) [0..<c] \<longleftrightarrow> (\<exists>j<c. vs ! j \<le> 0)"
  by (auto simp: list_ex_iff at1_def)

lemma kl_sum_conforming:
  assumes d: "t_dtype p_logits = t_dtype p" "t_dtype q = t_dtype p"
      and s: "t_shape p = [n, c]" "t_shape p_logits = [n, c]" "t_shape q = [c]"
  shows "kl_sum p p_logits q = Inr
           \<lparr>c_dtype = t_dtype p, c_shape = [n],
            c_vals = (if 0 < n \<and> (\<exists>j<c. t_vals q ! j \<le> 0) then NonFinite
                      else Finite (map (\<lambda>i. sum_list (map (\<lambda>j. at2 n c (t_vals p) i j
                        * (at2 n c (t_vals (rowwise log_softmax_row p_logits)) i j
                           - ln (at1 c (t_vals q) j))) [0..<c])) [0..<n]))\<rparr>"
  using d s by (simp add: kl_sum_def bdim_def Let_def list_ex_at1)






lemma softmax_at_pos: "j < D \<Longrightarrow> 0 < softmax_at D L i j"
proof -
  assume "j < D"
  then have "{..<D} \<noteq> {}" by auto
  then have "0 < (\<Sum>k<D. exp (L i k))" by (intro sum_pos) simp_all
  then show ?thesis by (simp add: softmax_at_def)
qed

lemma mean_probability_pos: "0 < N \<Longrightarrow> j < D \<Longrightarrow> 0 < mean_probability N D L j"
proof -
  assume N: "0 < N" and j: "j < D"
  have "{..<N} \<noteq> {}" using N by auto
  then have "0 < (\<Sum>i<N. softmax_at D L i j)"
    by (intro sum_pos) (simp_all add: softmax_at_pos[OF j])
  then show ?thesis using N by (simp add: mean_probability_def)
qed

lemma ln_softmax_at:
  "j < D \<Longrightarrow> ln (softmax_at D L i j) = L i j - ln (\<Sum>k<D. exp (L i k))"
proof -
  assume "j < D"
  then have "{..<D} \<noteq> {}" by auto
  then have "0 < (\<Sum>k<D. exp (L i k))" by (intro sum_pos) simp_all
  then show ?thesis by (simp add: softmax_at_def ln_div)
qed

lemma score_from_logits_formula:
  assumes sh: "t_shape logits = [N, D]" and ok: "t_ok logits" and N: "0 < N"
  shows "score_from_logits logits =
         Inr (Finite (t_dtype logits,
                      cast_to (t_dtype logits)
                        (exp_mean_kl N D (\<lambda>i j. t_vals logits ! (i * D + j)))))"
proof -
  define L where "L = (\<lambda>i j. t_vals logits ! (i * D + j))"
  define lg where "lg = logits\<lparr>t_dtype := Float64\<rparr>"
  define p where "p = rowwise softmax_row lg"
  define S where "S = (\<lambda>i. \<Sum>k<D. exp (L i k))"
  have lg_eq: "(if t_dtype logits \<noteq> Float64 then logits\<lparr>t_dtype := Float64\<rparr> else logits) = lg"
    by (simp add: lg_def)
  have shl: "t_shape lg = [N, D]" and okl: "t_ok lg" and vl: "t_vals lg = t_vals logits"
    and dl: "t_dtype lg = Float64"
    using sh ok by (simp_all add: lg_def t_ok_def)
  have row: "sum_list (map exp (map (\<lambda>j. t_vals lg ! (i * D + j)) [0..<D])) = S i" for i
    using sum_list_upt[of "\<lambda>k. exp (L i k)" D] by (simp add: comp_def S_def L_def vl)
  have pv: "t_vals p ! (i * D + j) = softmax_at D L i j" if "i < N" "j < D" for i j
  proof -
    let ?r = "map (\<lambda>j. t_vals lg ! (i * D + j)) [0..<D]"
    have "t_vals p ! (i * D + j) = softmax_row ?r ! j"
      unfolding p_def by (rule rowwise_nth[OF shl okl softmax_row_length that])
    also have "\<dots> = exp (?r ! j) / sum_list (map exp ?r)"
      using that(2) by (simp add: softmax_row_def)
    also have "\<dots> = softmax_at D L i j"
      unfolding row using that(2) by (simp add: softmax_at_def S_def L_def vl)
    finally show ?thesis .
  qed
  have lsv: "t_vals (rowwise log_softmax_row lg) ! (i * D + j) = L i j - ln (S i)"
    if "i < N" "j < D" for i j
  proof -
    let ?r = "map (\<lambda>j. t_vals lg ! (i * D + j)) [0..<D]"
    have "t_vals (rowwise log_softmax_row lg) ! (i * D + j) = log_softmax_row ?r ! j"
      by (rule rowwise_nth[OF shl okl log_softmax_row_length that])
    also have "\<dots> = ?r ! j - ln (sum_list (map exp ?r))"
      using that(2) by (simp add: log_softmax_row_def)
    also have "\<dots> = L i j - ln (S i)"
      unfolding row using that(2) by (simp add: L_def vl)
    finally show ?thesis .
  qed
  have shp: "t_shape p = [N, D]" and dp: "t_dtype p = Float64"
    using shl dl by (simp_all add: p_def rowwise_def)
  define q where "q = \<lparr>t_dtype = Float64, t_shape = [D],
       t_vals = map (\<lambda>j. sum_list (map (\<lambda>i. t_vals p ! (i * D + j)) [0..<N]) / real N) [0..<D]\<rparr>"
  have rm: "reduce_mean0 p = Finite q"
    using N shp dp by (simp add: reduce_mean0_def q_def Let_def)
  have qv: "t_vals q ! j = mean_probability N D L j" if "j < D" for j
  proof -
    have "sum_list (map (\<lambda>i. t_vals p ! (i * D + j)) [0..<N]) = (\<Sum>i<N. t_vals p ! (i * D + j))"
      by (rule sum_list_upt)
    also have "\<dots> = (\<Sum>i<N. softmax_at D L i j)"
      by (rule sum.cong) (simp_all add: pv that)
    finally show ?thesis using that by (simp add: q_def mean_probability_def)
  qed
  have qpos: "\<not> (\<exists>j<D. t_vals q ! j \<le> 0)"
  proof
    assume "\<exists>j<D. t_vals q ! j \<le> 0"
    then obtain j where j: "j < D" "t_vals q ! j \<le> 0" by blast
    then show False using qv[OF j(1)] mean_probability_pos[OF N j(1), of L] by simp
  qed
  define kv where "kv = map (\<lambda>i. sum_list (map (\<lambda>j. at2 N D (t_vals p) i j
                  * (at2 N D (t_vals (rowwise log_softmax_row lg)) i j
                     - ln (at1 D (t_vals q) j))) [0..<D])) [0..<N]"
  have ks: "kl_sum p lg q = Inr \<lparr>c_dtype = t_dtype p, c_shape = [N], c_vals = Finite kv\<rparr>"
  proof -
    have "kl_sum p lg q = Inr
           \<lparr>c_dtype = t_dtype p, c_shape = [N],
            c_vals = (if 0 < N \<and> (\<exists>j<D. t_vals q ! j \<le> 0) then NonFinite
                      else Finite (map (\<lambda>i. sum_list (map (\<lambda>j. at2 N D (t_vals p) i j
                        * (at2 N D (t_vals (rowwise log_softmax_row lg)) i j
                           - ln (at1 D (t_vals q) j))) [0..<D])) [0..<N]))\<rparr>"
    proof (rule kl_sum_conforming)
      show "t_dtype lg = t_dtype p" by (simp add: dl dp)
      show "t_dtype q = t_dtype p" by (simp add: q_def dp)
      show "t_shape p = [N, D]" by (rule shp)
      show "t_shape lg = [N, D]" by (rule shl)
      show "t_shape q = [D]" by (simp add: q_def)
    qed
    then show ?thesis using qpos by (simp add: kv_def)
  qed
  have kd: "kl_divergence p lg q
            = Inr \<lparr>c_dtype = t_dtype p, c_shape = [N], c_vals = Finite kv\<rparr>"
    using ks by (simp add: kl_divergence_def dp dl shp shl q_def)
  have klv: "kv = map (kl_at N D L) [0..<N]"
  proof -
    have "sum_list (map (\<lambda>j. at2 N D (t_vals p) i j
                  * (at2 N D (t_vals (rowwise log_softmax_row lg)) i j
                     - ln (at1 D (t_vals q) j))) [0..<D]) = kl_at N D L i" if i: "i < N" for i
    proof -
      have "sum_list (map (\<lambda>j. at2 N D (t_vals p) i j
                  * (at2 N D (t_vals (rowwise log_softmax_row lg)) i j
                     - ln (at1 D (t_vals q) j))) [0..<D])
            = (\<Sum>j<D. at2 N D (t_vals p) i j
                  * (at2 N D (t_vals (rowwise log_softmax_row lg)) i j
                     - ln (at1 D (t_vals q) j)))"
        by (rule sum_list_upt)
      also have "\<dots> = (\<Sum>j<D. softmax_at D L i j
                            * ln (softmax_at D L i j / mean_probability N D L j))"
      proof (rule sum.cong[OF refl])
        fix j assume "j \<in> {..<D}"
        then have j: "j < D" by simp
        have "ln (softmax_at D L i j / mean_probability N D L j)
              = (L i j - ln (S i)) - ln (mean_probability N D L j)"
          using softmax_at_pos[OF j, of L i] mean_probability_pos[OF N j, of L]
                ln_softmax_at[OF j, of L i]
          by (simp add: ln_div S_def)
        then show "at2 N D (t_vals p) i j
                  * (at2 N D (t_vals (rowwise log_softmax_row lg)) i j
                     - ln (at1 D (t_vals q) j))
              = softmax_at D L i j * ln (softmax_at D L i j / mean_probability N D L j)"
          using at2_plain[OF i j] at1_plain[OF j] pv[OF i j] lsv[OF i j] qv[OF j] by simp
      qed
      finally show ?thesis by (simp add: kl_at_def)
    qed
    then show ?thesis by (simp add: kv_def)
  qed
  have ra: "reduce_mean_all kv = Finite ((\<Sum>i<N. kl_at N D L i) / real N)"
  proof -
    have "kv \<noteq> []" using N by (simp add: klv)
    moreover have "sum_list kv = (\<Sum>i<N. kl_at N D L i)"
      unfolding klv by (rule sum_list_upt)
    moreover have "length kv = N" by (simp add: klv)
    ultimately show ?thesis by (simp add: reduce_mean_all_def)
  qed
  have r2: "length (t_shape logits) = 2" using sh by simp
  show ?thesis
    unfolding score_from_logits_def Let_def lg_eq
    using r2 by (simp add: p_def[symmetric] rm kd ra exp_mean_kl_def L_def)
qed

lemma exp_mean_kl_cong:
  assumes "\<And>i j. i < N \<Longrightarrow> j < D \<Longrightarrow> L i j = L' i j"
  shows "exp_mean_kl N D L = exp_mean_kl N D L'"
proof -
  have s: "softmax_at D L i j = softmax_at D L' i j" if "i < N" "j < D" for i j
  proof -
    have "(\<Sum>k<D. exp (L i k)) = (\<Sum>k<D. exp (L' i k))"
      by (rule sum.cong) (simp_all add: assms that(1))
    then show ?thesis using assms[OF that] by (simp add: softmax_at_def)
  qed
  have m: "mean_probability N D L j = mean_probability N D L' j" if "j < D" for j
  proof -
    have "(\<Sum>i<N. softmax_at D L i j) = (\<Sum>i<N. softmax_at D L' i j)"
      by (rule sum.cong) (simp_all add: s that)
    then show ?thesis by (simp add: mean_probability_def)
  qed
  have k: "kl_at N D L i = kl_at N D L' i" if "i < N" for i
    unfolding kl_at_def by (rule sum.cong) (simp_all add: s m that)
  have "(\<Sum>i<N. kl_at N D L i) = (\<Sum>i<N. kl_at N D L' i)"
    by (rule sum.cong) (simp_all add: k)
  then show ?thesis by (simp add: exp_mean_kl_def)
qed

lemma classifier_score_per_image:
  assumes pi: "per_image fn g D dt rest"
      and sh: "t_shape images = N # rest" and ok: "t_ok images"
      and n: "0 < n" "N mod n = 0"
  shows "classifier_score images fn n =
         (if dt = t_dtype images
          then score_from_logits \<lparr>t_dtype = dt, t_shape = [N, D],
                 t_vals = concat (map g (rows_of N (prod_list rest) (t_vals images)))\<rparr>
          else Inl (TypeError ''Output of fn does not match the dtype of elems''))"
  by (simp add: classifier_score_def batched_outputs_per_image[OF assms])

text \<open>
  Claim C1, as amended. For a classifier that computes the logits of every image of a
  batch on its own, a batch of \<open>N\<close> images and every number of batches \<open>n\<close> that divides \<open>N\<close>
  (1, 2 and 4 among them), \<open>classifier_score\<close> has the outcome it has for one batch. Where
  the logits have the element type of the images, as \<open>tf.map_fn\<close> requires, and there is at
  least one image, it returns \<open>exp (mean_i KL(p_i || q))\<close> as the specification states it,
  cast to the element type of the logits; where the element types differ it fails for
  every \<open>n\<close>. Values are idealised real numbers, so what is proved is an equality, which is
  within every tolerance. A classifier whose output for an image depends on the rest of
  its batch is not covered: see \<open>classifier_score_split_counterexample\<close>.
\<close>

theorem classifier_score_split_invariant:
  assumes pi: "per_image fn g D dt rest"
      and sh: "t_shape images = N # rest" and ok: "t_ok images"
      and n: "0 < n" "N mod n = 0"
  shows "classifier_score images fn n = classifier_score images fn 1
       \<and> (dt = t_dtype images \<and> 0 < N \<longrightarrow>
            classifier_score images fn n =
              Inr (Finite (dt,
                (if is_floating dt
                 then exp_mean_kl N D (\<lambda>i j. g (rows_of N (prod_list rest) (t_vals images) ! i) ! j)
                 else cast_to dt (exp_mean_kl N D
                        (\<lambda>i j. g (rows_of N (prod_list rest) (t_vals images) ! i) ! j))))))
       \<and> (dt \<noteq> t_dtype images \<longrightarrow>
            classifier_score images fn n
              = Inl (TypeError ''Output of fn does not match the dtype of elems''))"
proof (intro conjI impI)
  have "(0::nat) < 1" "N mod 1 = 0" by simp_all
  from classifier_score_per_image[OF pi sh ok this] classifier_score_per_image[OF pi sh ok n]
  show "classifier_score images fn n = classifier_score images fn 1" by simp
next
  assume "dt \<noteq> t_dtype images"
  then show "classifier_score images fn n
              = Inl (TypeError ''Output of fn does not match the dtype of elems'')"
    using classifier_score_per_image[OF pi sh ok n] by simp
next
  assume a: "dt = t_dtype images \<and> 0 < N"
  let ?rs = "rows_of N (prod_list rest) (t_vals images)"
  let ?lg = "\<lparr>t_dtype = dt, t_shape = [N, D], t_vals = concat (map g ?rs)\<rparr>"
  have gl: "\<forall>r \<in> set (map g ?rs). length r = D"
    using pi unfolding per_image_def by simp
  have okl: "t_ok ?lg"
    using length_concat_const[OF gl] by (simp add: t_ok_def rows_of_length)
  have "score_from_logits ?lg =
        Inr (Finite (dt, cast_to dt (exp_mean_kl N D (\<lambda>i j. concat (map g ?rs) ! (i * D + j)))))"
    using score_from_logits_formula[of ?lg N D] okl a by simp
  moreover have "exp_mean_kl N D (\<lambda>i j. concat (map g ?rs) ! (i * D + j))
                 = exp_mean_kl N D (\<lambda>i j. g (?rs ! i) ! j)"
  proof (rule exp_mean_kl_cong)
    fix i j assume i: "i < N" and j: "j < D"
    have "i < length (map g ?rs)" using i by (simp add: rows_of_length)
    from nth_concat_rows[OF gl this j]
    show "concat (map g ?rs) ! (i * D + j) = g (?rs ! i) ! j"
      using i by (simp add: rows_of_length)
  qed
  ultimately have "classifier_score images fn n =
            Inr (Finite (dt, cast_to dt (exp_mean_kl N D (\<lambda>i j. g (?rs ! i) ! j))))"
    using classifier_score_per_image[OF pi sh ok n] a by simp
  then show "classifier_score images fn n =
              Inr (Finite (dt,
                (if is_floating dt
                 then exp_mean_kl N D (\<lambda>i j. g (?rs ! i) ! j)
                 else cast_to dt (exp_mean_kl N D (\<lambda>i j. g (?rs ! i) ! j)))))"
    by (simp add: cast_to_def)
qed

theorem classifier_score_split_invariant_witness:
  "classifier_score \<lparr>t_dtype = Float32, t_shape = [4, 1, 1, 1], t_vals = [0, 1, 2, 3]\<rparr>
     (\<lambda>t. Inr \<lparr>t_dtype = Float32, t_shape = [hd (t_shape t), 2],
               t_vals = concat (map (\<lambda>r. [hd r, 0])
                         (rows_of (hd (t_shape t)) (prod_list [1, 1, 1]) (t_vals t)))\<rparr>) 2
   = classifier_score \<lparr>t_dtype = Float32, t_shape = [4, 1, 1, 1], t_vals = [0, 1, 2, 3]\<rparr>
     (\<lambda>t. Inr \<lparr>t_dtype = Float32, t_shape = [hd (t_shape t), 2],
               t_vals = concat (map (\<lambda>r. [hd r, 0])
                         (rows_of (hd (t_shape t)) (prod_list [1, 1, 1]) (t_vals t)))\<rparr>) 1
   \<and> classifier_score \<lparr>t_dtype = Float32, t_shape = [4, 1, 1, 1], t_vals = [0, 1, 2, 3]\<rparr>
     (\<lambda>t. Inr \<lparr>t_dtype = Float32, t_shape = [hd (t_shape t), 2],
               t_vals = concat (map (\<lambda>r. [hd r, 0])
                         (rows_of (hd (t_shape t)) (prod_list [1, 1, 1]) (t_vals t)))\<rparr>) 4
   = classifier_score \<lparr>t_dtype = Float32, t_shape = [4, 1, 1, 1], t_vals = [0, 1, 2, 3]\<rparr>
     (\<lambda>t. Inr \<lparr>t_dtype = Float32, t_shape = [hd (t_shape t), 2],
               t_vals = concat (map (\<lambda>r. [hd r, 0])
                         (rows_of (hd (t_shape t)) (prod_list [1, 1, 1]) (t_vals t)))\<rparr>) 1
   \<and> (\<exists>v. classifier_score \<lparr>t_dtype = Float32, t_shape = [4, 1, 1, 1], t_vals = [0, 1, 2, 3]\<rparr>
     (\<lambda>t. Inr \<lparr>t_dtype = Float32, t_shape = [hd (t_shape t), 2],
               t_vals = concat (map (\<lambda>r. [hd r, 0])
                         (rows_of (hd (t_shape t)) (prod_list [1, 1, 1]) (t_vals t)))\<rparr>) 4
         = Inr (Finite (Float32, v)))"
proof -
  let ?fn = "\<lambda>t. (Inr \<lparr>t_dtype = Float32, t_shape = [hd (t_shape t), 2],
               t_vals = concat (map (\<lambda>r. [hd r, 0])
                         (rows_of (hd (t_shape t)) (prod_list [1, 1, 1]) (t_vals t)))\<rparr>
               :: error + tensor)"
  let ?im = "\<lparr>t_dtype = Float32, t_shape = [4, 1, 1, 1], t_vals = [0, 1, 2, 3]\<rparr>"
  have pi: "per_image ?fn (\<lambda>r. [hd r, 0]) 2 Float32 [1, 1, 1]"
    by (simp add: per_image_def)
  have sh: "t_shape ?im = 4 # [1, 1, 1]" by simp
  have ok: "t_ok ?im" by (simp add: t_ok_def)
  have n2: "(0::nat) < 2" "(4::nat) mod 2 = 0" by simp_all
  have n4: "(0::nat) < 4" "(4::nat) mod 4 = 0" by simp_all
  have d: "Float32 = t_dtype ?im \<and> (0::nat) < 4" by simp
  from classifier_score_split_invariant[OF pi sh ok n2]
  have 1: "classifier_score ?im ?fn 2 = classifier_score ?im ?fn 1" by blast
  from classifier_score_split_invariant[OF pi sh ok n4]
  have 2: "classifier_score ?im ?fn 4 = classifier_score ?im ?fn 1" by blast
  from classifier_score_split_invariant[OF pi sh ok n4] d
  have 3: "\<exists>v. classifier_score ?im ?fn 4 = Inr (Finite (Float32, v))" by blast
  from 1 2 3 show ?thesis by blast
qed

lemma upt_1: "[0..<1] = [0]" and upt_S1: "[0..<Suc 0] = [0]"
  and upt_2: "[0..<2] = [0, 1]" and upt_S2: "[0..<Suc (Suc 0)] = [0, 1]"
  and upt_4: "[0..<4] = [0, 1, 2, 3]"
  by (simp_all add: upt_rec)

lemma centred_whole:
  "batched_outputs \<lparr>t_dtype = Float32, t_shape = [4, 1, 1, 2],
                     t_vals = [- ln 3, ln 3, ln 3, - ln 3, - ln 3, ln 3, ln 3, - ln 3]\<rparr>
     centred_classifier 1
   = Inr \<lparr>t_dtype = Float32, t_shape = [4, 2],
          t_vals = [- ln 3, ln 3, ln 3, - ln 3, - ln 3, ln 3, ln 3, - ln 3]\<rparr>"
  by (simp add: batched_outputs_def split0_def stack_def map_fn_def unstack_def concat0_def
                centred_classifier_def block_def upt_1 upt_S1 upt_2 upt_S2 upt_4)

lemma centred_halves:
  "batched_outputs \<lparr>t_dtype = Float32, t_shape = [4, 1, 1, 2],
                     t_vals = [- ln 3, ln 3, ln 3, - ln 3, - ln 3, ln 3, ln 3, - ln 3]\<rparr>
     centred_classifier 2
   = Inr \<lparr>t_dtype = Float32, t_shape = [4, 2],
          t_vals = [- ln 3, ln 3, ln 3, - ln 3, - ln 3, ln 3, ln 3, - ln 3]\<rparr>"
  by (simp add: batched_outputs_def split0_def stack_def map_fn_def unstack_def concat0_def
                centred_classifier_def block_def upt_1 upt_S1 upt_2 upt_S2 upt_4)

lemma centred_singles:
  "batched_outputs \<lparr>t_dtype = Float32, t_shape = [4, 1, 1, 2],
                     t_vals = [- ln 3, ln 3, ln 3, - ln 3, - ln 3, ln 3, ln 3, - ln 3]\<rparr>
     centred_classifier 4
   = Inr \<lparr>t_dtype = Float32, t_shape = [4, 2], t_vals = [0, 0, 0, 0, 0, 0, 0, 0]\<rparr>"
  by (simp add: batched_outputs_def split0_def stack_def map_fn_def unstack_def concat0_def
                centred_classifier_def block_def upt_1 upt_S1 upt_2 upt_S2 upt_4)

lemma sum_lt2: "(\<Sum>k<2. h k) = h 0 + (h (Suc 0) :: real)"
  by (simp add: numeral_2_eq_2)

lemma sum_lt4: "(\<Sum>k<(4::nat). h k) = h 0 + h (Suc 0) + h 2 + (h 3 :: real)"
  by (simp add: eval_nat_numeral)

lemma kl_gap: "ln (7 / 5 :: real) < (1 / 10) * ln (1 / 5) + (9 / 10) * ln (9 / 5)"
proof -
  have "ln (5 * (7 / 5) ^ 10 :: real) < ln ((9 / 5) ^ 9)"
    by (subst ln_less_cancel_iff) (simp_all add: power_divide)
  moreover have "ln (5 * (7 / 5) ^ 10 :: real) = ln 5 + 10 * ln (7 / 5)"
    by (simp add: ln_mult ln_realpow)
  moreover have "ln ((9 / 5) ^ 9 :: real) = 9 * ln (9 / 5)" by (simp add: ln_realpow)
  moreover have "ln (1 / 5 :: real) = - ln 5" by (simp add: ln_div)
  ultimately show ?thesis by simp
qed

lemma exp_mean_kl_zero_logits:
  "exp_mean_kl 4 2 (\<lambda>i j. [0, 0, 0, 0, 0, 0, 0, 0] ! (i * 2 + j)) = 1"
  by (simp add: exp_mean_kl_def kl_at_def mean_probability_def softmax_at_def sum_lt2 sum_lt4)

lemma exp_mean_kl_centred_logits:
  "exp_mean_kl 4 2 (\<lambda>i j. [- ln 3, ln 3, ln 3, - ln 3, - ln 3, ln 3, ln 3, - ln 3] ! (i * 2 + j))
   = exp ((1 / 10) * ln (1 / 5) + (9 / 10) * ln (9 / 5))"
proof -
  let ?L = "\<lambda>i j. [- ln 3, ln 3, ln 3, - ln 3, - ln 3, ln 3, ln 3, - ln (3::real)] ! (i * 2 + j)"
  have e: "exp (- ln (3::real)) = 1 / 3" "exp (ln (3::real)) = 3"
    by (simp_all add: exp_minus inverse_eq_divide)
  have p: "softmax_at 2 ?L 0 0 = 1 / 10" "softmax_at 2 ?L 0 (Suc 0) = 9 / 10"
          "softmax_at 2 ?L (Suc 0) 0 = 9 / 10" "softmax_at 2 ?L (Suc 0) (Suc 0) = 1 / 10"
          "softmax_at 2 ?L 2 0 = 1 / 10" "softmax_at 2 ?L 2 (Suc 0) = 9 / 10"
          "softmax_at 2 ?L 3 0 = 9 / 10" "softmax_at 2 ?L 3 (Suc 0) = 1 / 10"
    by (simp_all add: softmax_at_def sum_lt2 e)
  have q: "mean_probability 4 2 ?L 0 = 1 / 2" "mean_probability 4 2 ?L (Suc 0) = 1 / 2"
    by (simp_all add: mean_probability_def sum_lt4 p)
  have k: "kl_at 4 2 ?L 0 = (1 / 10) * ln (1 / 5) + (9 / 10) * ln (9 / 5)"
          "kl_at 4 2 ?L (Suc 0) = (1 / 10) * ln (1 / 5) + (9 / 10) * ln (9 / 5)"
          "kl_at 4 2 ?L 2 = (1 / 10) * ln (1 / 5) + (9 / 10) * ln (9 / 5)"
          "kl_at 4 2 ?L 3 = (1 / 10) * ln (1 / 5) + (9 / 10) * ln (9 / 5)"
    by (simp_all add: kl_at_def sum_lt2 p q)
  show ?thesis by (simp add: exp_mean_kl_def sum_lt4 k)
qed

text \<open>
  Claim C1 as stated, for every classifier function, does not hold. The classifier that
  centres the images of a batch on their mean is one function of a batch; on a batch of
  four images, whose size 1, 2 and 4 divide, \<open>classifier_score\<close> returns a score above
  \<open>7/5\<close> for one batch and for two batches, and the score \<open>1\<close> for four batches of one
  image.
\<close>

theorem classifier_score_split_counterexample:
  "classifier_score \<lparr>t_dtype = Float32, t_shape = [4, 1, 1, 2],
                      t_vals = [- ln 3, ln 3, ln 3, - ln 3, - ln 3, ln 3, ln 3, - ln 3]\<rparr>
     centred_classifier 1
     = Inr (Finite (Float32, exp ((1 / 10) * ln (1 / 5) + (9 / 10) * ln (9 / 5))))
   \<and> classifier_score \<lparr>t_dtype = Float32, t_shape = [4, 1, 1, 2],
                      t_vals = [- ln 3, ln 3, ln 3, - ln 3, - ln 3, ln 3, ln 3, - ln 3]\<rparr>
     centred_classifier 2
     = Inr (Finite (Float32, exp ((1 / 10) * ln (1 / 5) + (9 / 10) * ln (9 / 5))))
   \<and> classifier_score \<lparr>t_dtype = Float32, t_shape = [4, 1, 1, 2],
                      t_vals = [- ln 3, ln 3, ln 3, - ln 3, - ln 3, ln 3, ln 3, - ln 3]\<rparr>
     centred_classifier 4
     = Inr (Finite (Float32, 1))
   \<and> 7 / 5 < exp ((1 / 10) * ln (1 / 5) + (9 / 10) * ln (9 / 5 :: real))"
proof -
  let ?a = "\<lparr>t_dtype = Float32, t_shape = [4, 2],
             t_vals = [- ln 3, ln 3, ln 3, - ln 3, - ln 3, ln 3, ln 3, - ln 3]\<rparr>"
  let ?b = "\<lparr>t_dtype = Float32, t_shape = [4, 2], t_vals = [0, 0, 0, 0, 0, 0, 0, 0 :: real]\<rparr>"
  have a: "score_from_logits ?a
        = Inr (Finite (Float32, exp ((1 / 10) * ln (1 / 5) + (9 / 10) * ln (9 / 5))))"
    using score_from_logits_formula[of ?a 4 2] exp_mean_kl_centred_logits
    by (simp add: t_ok_def cast_to_def)
  have b: "score_from_logits ?b = Inr (Finite (Float32, 1))"
    using score_from_logits_formula[of ?b 4 2] exp_mean_kl_zero_logits
    by (simp add: t_ok_def cast_to_def)
  have "exp (ln (7 / 5 :: real)) < exp ((1 / 10) * ln (1 / 5) + (9 / 10) * ln (9 / 5))"
    using kl_gap by (simp only: exp_less_cancel_iff)
  then have g: "7 / 5 < exp ((1 / 10) * ln (1 / 5) + (9 / 10) * ln (9 / 5 :: real))" by simp
  show ?thesis
    unfolding classifier_score_def centred_whole centred_halves centred_singles
    using a b g by simp
qed

section \<open>Properties of the square root of a symmetric matrix\<close>

lemma mk_apply: "i < n \<Longrightarrow> j < n \<Longrightarrow> mk n f i j = f i j"
  by (simp add: mk_def)

lemma mk_mk: "mk n (mk n f) = mk n f"
  by (rule ext)+ (simp add: mk_def)

lemma mk_cong: "(\<And>i j. i < n \<Longrightarrow> j < n \<Longrightarrow> f i j = g i j) \<Longrightarrow> mk n f = mk n g"
  by (rule ext)+ (simp add: mk_def)

lemma mk_eqD: "mk n f = mk n g \<Longrightarrow> i < n \<Longrightarrow> j < n \<Longrightarrow> f i j = g i j"
  by (metis mk_apply)

lemma mm_mk_left: "mm n (mk n A) B = mm n A B"
  unfolding mm_def by (rule mk_cong) (simp add: mk_def)

lemma mm_mk_right: "mm n A (mk n B) = mm n A B"
  unfolding mm_def by (rule mk_cong) (simp add: mk_def)

lemma mk_mm: "mk n (mm n A B) = mm n A B"
  by (simp add: mm_def mk_mk)

lemma mk_mtr: "mk n (mtr n A) = mtr n A"
  by (simp add: mtr_def mk_mk)

lemma mk_dg: "mk n (dg n s) = dg n s"
  by (simp add: dg_def mk_mk)

lemma mk_mone: "mk n (mone n) = mone n"
  by (simp add: mone_def mk_mk)

lemma mm_apply: "i < n \<Longrightarrow> j < n \<Longrightarrow> mm n A B i j = (\<Sum>k<n. A i k * B k j)"
  by (simp add: mm_def mk_def)

lemma mm_assoc: "mm n (mm n A B) C = mm n A (mm n B C)"
proof -
  have "(\<Sum>k<n. mm n A B i k * C k j) = (\<Sum>l<n. A i l * mm n B C l j)"
    if "i < n" "j < n" for i j
  proof -
    have "(\<Sum>k<n. mm n A B i k * C k j) = (\<Sum>k<n. (\<Sum>l<n. A i l * B l k) * C k j)"
      by (rule sum.cong) (simp_all add: mm_apply that)
    also have "\<dots> = (\<Sum>k<n. \<Sum>l<n. A i l * (B l k * C k j))"
      by (simp add: sum_distrib_right mult.assoc)
    also have "\<dots> = (\<Sum>l<n. \<Sum>k<n. A i l * (B l k * C k j))"
      by (rule sum.swap)
    also have "\<dots> = (\<Sum>l<n. A i l * (\<Sum>k<n. B l k * C k j))"
      by (simp add: sum_distrib_left)
    also have "\<dots> = (\<Sum>l<n. A i l * mm n B C l j)"
      by (rule sum.cong) (simp_all add: mm_apply that)
    finally show ?thesis .
  qed
  then show ?thesis
    unfolding mm_def[of n "mm n A B" C] mm_def[of n A "mm n B C"] by (rule mk_cong)
qed

lemma mtr_mm: "mtr n (mm n A B) = mm n (mtr n B) (mtr n A)"
  unfolding mtr_def[of n "mm n A B"] mm_def[of n "mtr n B" "mtr n A"]
proof (rule mk_cong)
  fix i j assume "i < n" "j < n"
  have "mm n A B j i = (\<Sum>k<n. A j k * B k i)" using \<open>i < n\<close> \<open>j < n\<close> by (simp add: mm_apply)
  also have "\<dots> = (\<Sum>k<n. mtr n B i k * mtr n A k j)"
    by (rule sum.cong) (simp_all add: mtr_def mk_def \<open>i < n\<close> \<open>j < n\<close>)
  finally show "mm n A B j i = (\<Sum>k<n. mtr n B i k * mtr n A k j)" .
qed

lemma mtr_mtr: "mtr n (mtr n A) = mk n A"
  unfolding mtr_def[of n "mtr n A"] by (rule mk_cong) (simp add: mtr_def mk_def)

lemma mtr_mk: "mtr n (mk n A) = mtr n A"
  unfolding mtr_def by (rule mk_cong) (simp add: mk_def)

lemma mm_mone_left: "mm n (mone n) A = mk n A"
  unfolding mm_def
proof (rule mk_cong)
  fix i j assume i: "i < n" and j: "j < n"
  have "(\<Sum>k<n. mone n i k * A k j) = (\<Sum>k<n. if k = i then A k j else 0)"
    by (rule sum.cong) (auto simp: mone_def mk_def i)
  also have "\<dots> = A i j" using i by simp
  finally show "(\<Sum>k<n. mone n i k * A k j) = A i j" .
qed

lemma mm_mone_right: "mm n A (mone n) = mk n A"
  unfolding mm_def
proof (rule mk_cong)
  fix i j assume i: "i < n" and j: "j < n"
  have "(\<Sum>k<n. A i k * mone n k j) = (\<Sum>k<n. if k = j then A i k else 0)"
    by (rule sum.cong) (auto simp: mone_def mk_def j)
  also have "\<dots> = A i j" using j by simp
  finally show "(\<Sum>k<n. A i k * mone n k j) = A i j" .
qed

lemma mm_dg_right: "mm n A (dg n s) = mk n (\<lambda>i j. A i j * s j)"
  unfolding mm_def
proof (rule mk_cong)
  fix i j assume i: "i < n" and j: "j < n"
  have "(\<Sum>k<n. A i k * dg n s k j) = (\<Sum>k<n. if k = j then A i k * s k else 0)"
    by (rule sum.cong) (auto simp: dg_def mk_def j)
  also have "\<dots> = A i j * s j" using j by simp
  finally show "(\<Sum>k<n. A i k * dg n s k j) = A i j * s j" .
qed

lemma mm_dg_left: "mm n (dg n s) A = mk n (\<lambda>i j. s i * A i j)"
  unfolding mm_def
proof (rule mk_cong)
  fix i j assume i: "i < n" and j: "j < n"
  have "(\<Sum>k<n. dg n s i k * A k j) = (\<Sum>k<n. if k = i then s k * A k j else 0)"
    by (rule sum.cong) (auto simp: dg_def mk_def i)
  also have "\<dots> = s i * A i j" using i by simp
  finally show "(\<Sum>k<n. dg n s i k * A k j) = s i * A i j" .
qed

lemma mtr_dg: "mtr n (dg n s) = dg n s"
  unfolding mtr_def dg_def by (rule ext)+ (auto simp: mk_def)

lemma mtr_mone: "mtr n (mone n) = mone n"
  unfolding mtr_def mone_def by (rule ext)+ (auto simp: mk_def)

lemma sum_nonneg_eq_0_D:
  fixes f :: "nat \<Rightarrow> real"
  assumes "(\<Sum>i<n. f i) = 0" "\<And>i. i < n \<Longrightarrow> 0 \<le> f i" "a < n"
  shows "f a = 0"
proof -
  have "\<forall>i \<in> {..<n}. f i = 0"
    using assms(1,2) by (subst sum_nonneg_eq_0_iff[symmetric]) auto
  then show ?thesis using assms(3) by simp
qed

lemma sq_eq_nonneg:
  fixes a b :: real
  assumes "0 \<le> a" "0 \<le> b" "a * a = b * b"
  shows "a = b"
proof -
  have "a\<^sup>2 = b\<^sup>2" using assms(3) by (simp add: power2_eq_square)
  then show ?thesis using assms(1,2) by (simp add: power2_eq_iff_nonneg)
qed

text \<open>A positive semidefinite symmetric matrix whose square is a diagonal matrix of squares
  of non-negative numbers is the diagonal matrix of those numbers.\<close>

lemma psd_root_unique_diag:
  assumes canon: "mk n P = P"
      and sym: "\<And>i j. i < n \<Longrightarrow> j < n \<Longrightarrow> P i j = P j i"
      and psd: "\<And>x. 0 \<le> (\<Sum>a<n. \<Sum>b<n. x a * P a b * x b)"
      and sq: "mm n P P = dg n (\<lambda>i. s i * s i)"
      and nn: "\<And>i. i < n \<Longrightarrow> 0 \<le> s i"
  shows "P = dg n s"
proof -
  have PP: "(\<Sum>k<n. P i k * P k j) = (if i = j then s i * s i else 0)" if "i < n" "j < n" for i j
    using sq that mm_apply[OF that, of P P] by (simp add: dg_def mk_def)
  have comm2: "P i j * (s j * s j) = (s i * s i) * P i j" if "i < n" "j < n" for i j
  proof -
    have "mm n P (mm n P P) = mm n (mm n P P) P" by (simp add: mm_assoc)
    then have "mk n (\<lambda>i j. P i j * (s j * s j)) = mk n (\<lambda>i j. (s i * s i) * P i j)"
      unfolding sq by (simp add: mm_dg_right mm_dg_left)
    from mk_eqD[OF this that] show ?thesis .
  qed
  have comm: "P i j * s j = s i * P i j" if "i < n" "j < n" for i j
  proof (cases "s i = s j")
    case True then show ?thesis by simp
  next
    case False
    have "s i * s i \<noteq> s j * s j"
      using sq_eq_nonneg[OF nn[OF that(1)] nn[OF that(2)]] False by blast
    moreover have "P i j * (s j * s j - s i * s i) = 0"
      using comm2[OF that] by (simp add: algebra_simps)
    ultimately have "P i j = 0" by simp
    then show ?thesis by simp
  qed
  define Z where "Z = (\<lambda>i j. P i j - (if i = j then s i else 0))"
  have E: "(\<Sum>b<n. P a b * Z b j) + s a * Z a j = 0" if "a < n" "j < n" for a j
  proof -
    have "(\<Sum>b<n. P a b * Z b j)
          = (\<Sum>b<n. P a b * P b j) - (\<Sum>b<n. if b = j then P a b * s b else 0)"
      unfolding Z_def sum_subtractf[symmetric]
      by (rule sum.cong) (auto simp: algebra_simps)
    also have "\<dots> = (if a = j then s a * s a else 0) - P a j * s j"
      using that PP[OF that] by simp
    finally have h: "(\<Sum>b<n. P a b * Z b j) = (if a = j then s a * s a else 0) - P a j * s j" .
    have "s a * Z a j = s a * P a j - (if a = j then s a * s a else 0)"
      by (simp add: Z_def algebra_simps)
    then show ?thesis unfolding h using comm[OF that] by linarith
  qed
  have Zero: "Z a j = 0" if j: "j < n" and a: "a < n" for a j
  proof -
    define x where "x = (\<lambda>a. Z a j)"
    define Q where "Q = (\<Sum>a<n. \<Sum>b<n. x a * P a b * x b)"
    define R where "R = (\<Sum>a<n. s a * (x a * x a))"
    have Q0: "0 \<le> Q" unfolding Q_def by (rule psd)
    have R0: "0 \<le> R" unfolding R_def
    proof (rule sum_nonneg)
      fix b assume "b \<in> {..<n}"
      then have "0 \<le> s b" by (simp add: nn)
      moreover have "0 \<le> x b * x b" by simp
      ultimately show "0 \<le> s b * (x b * x b)" by (rule mult_nonneg_nonneg)
    qed
    have "Q + R = (\<Sum>a<n. x a * ((\<Sum>b<n. P a b * x b) + s a * x a))"
      unfolding Q_def R_def sum.distrib[symmetric]
      by (rule sum.cong) (simp_all add: sum_distrib_left algebra_simps)
    also have "\<dots> = 0"
      by (rule sum.neutral) (simp add: x_def E[OF _ j])
    finally have QR: "Q + R = 0" .
    have Rz: "R = 0" using Q0 R0 QR by linarith
    have sx: "s b * x b = 0" if "b < n" for b
    proof -
      have "s b * (x b * x b) = 0"
        using Rz unfolding R_def
      proof (rule sum_nonneg_eq_0_D)
        fix c assume "c < n"
        then have "0 \<le> s c" by (simp add: nn)
        moreover have "0 \<le> x c * x c" by simp
        ultimately show "0 \<le> s c * (x c * x c)" by (rule mult_nonneg_nonneg)
      qed (rule that)
      then show ?thesis by auto
    qed
    have Px: "(\<Sum>b<n. P c b * x b) = 0" if "c < n" for c
      using E[OF that j] sx[OF that] unfolding x_def by linarith
    have "(\<Sum>b<n. x b * x b) = (\<Sum>b<n. x b * P b j) - (\<Sum>b<n. if b = j then x b * s b else 0)"
      unfolding sum_subtractf[symmetric]
      by (rule sum.cong) (auto simp: x_def Z_def algebra_simps)
    also have "(\<Sum>b<n. x b * P b j) = (\<Sum>b<n. P j b * x b)"
      by (rule sum.cong) (simp_all add: sym j mult.commute)
    also have "\<dots> = 0" by (rule Px[OF j])
    also have "(\<Sum>b<n. if b = j then x b * s b else 0) = x j * s j" using j by simp
    finally have "(\<Sum>b<n. x b * x b) = 0 - x j * s j" .
    moreover have "x j * s j = 0" using sx[OF j] by (simp add: mult.commute)
    ultimately have "(\<Sum>b<n. x b * x b) = 0" by linarith
    then have "x a * x a = 0"
      by (rule sum_nonneg_eq_0_D) (simp_all add: a)
    then show ?thesis by (simp add: x_def)
  qed
  have "mk n P = mk n (\<lambda>i j. if i = j then s i else 0)"
  proof (rule mk_cong)
    fix i j assume "i < n" "j < n"
    from Zero[OF this(2) this(1)] show "P i j = (if i = j then s i else 0)"
      by (simp add: Z_def)
  qed
  then show ?thesis using canon by (simp add: dg_def)
qed

lemma mv_mm: "i < n \<Longrightarrow> mv n (mm n A B) x i = mv n A (mv n B x) i"
proof -
  assume i: "i < n"
  have "mv n (mm n A B) x i = (\<Sum>j<n. (\<Sum>k<n. A i k * B k j) * x j)"
    unfolding mv_def by (rule sum.cong) (simp_all add: mm_apply i)
  also have "\<dots> = (\<Sum>j<n. \<Sum>k<n. A i k * (B k j * x j))"
    by (simp add: sum_distrib_right mult.assoc)
  also have "\<dots> = (\<Sum>k<n. \<Sum>j<n. A i k * (B k j * x j))" by (rule sum.swap)
  also have "\<dots> = mv n A (mv n B x) i" by (simp add: mv_def sum_distrib_left)
  finally show ?thesis .
qed

lemma mv_adjoint:
  "(\<Sum>a<n. x a * mv n (mtr n V) w a) = (\<Sum>c<n. mv n V x c * w c)"
proof -
  have "(\<Sum>a<n. x a * mv n (mtr n V) w a) = (\<Sum>a<n. \<Sum>c<n. x a * (V c a * w c))"
    unfolding mv_def sum_distrib_left
    by (intro sum.cong refl) (simp add: mtr_def mk_def)
  also have "\<dots> = (\<Sum>c<n. \<Sum>a<n. x a * (V c a * w c))" by (rule sum.swap)
  also have "\<dots> = (\<Sum>c<n. mv n V x c * w c)"
    unfolding mv_def sum_distrib_right by (intro sum.cong refl) (simp add: mult_ac)
  finally show ?thesis .
qed

lemma quad_form_mv: "(\<Sum>a<n. \<Sum>b<n. x a * A a b * x b) = (\<Sum>a<n. x a * mv n A x a)"
  unfolding mv_def sum_distrib_left by (intro sum.cong refl) (simp add: mult.assoc)

lemma psd_conjugate:
  assumes "\<And>x. 0 \<le> (\<Sum>a<n. \<Sum>b<n. x a * M a b * x b)"
  shows "0 \<le> (\<Sum>a<n. \<Sum>b<n. x a * mm n (mtr n V) (mm n M V) a b * x b)"
proof -
  let ?y = "mv n V x"
  have "(\<Sum>a<n. \<Sum>b<n. x a * mm n (mtr n V) (mm n M V) a b * x b)
        = (\<Sum>a<n. x a * mv n (mm n (mtr n V) (mm n M V)) x a)" by (rule quad_form_mv)
  also have "\<dots> = (\<Sum>a<n. x a * mv n (mtr n V) (mv n (mm n M V) x) a)"
    by (intro sum.cong refl) (simp add: mv_mm)
  also have "\<dots> = (\<Sum>c<n. ?y c * mv n (mm n M V) x c)" by (rule mv_adjoint)
  also have "\<dots> = (\<Sum>c<n. ?y c * mv n M ?y c)"
    by (intro sum.cong refl) (simp add: mv_mm)
  also have "\<dots> = (\<Sum>a<n. \<Sum>b<n. ?y a * M a b * ?y b)" by (rule quad_form_mv[symmetric])
  finally show ?thesis using assms[of ?y] by simp
qed

lemma cancel_left:
  assumes "mm n A B = mone n"
  shows "mm n A (mm n B X) = mk n X"
  by (simp add: mm_assoc[symmetric] assms mm_mone_left)

lemma dg_dg: "mm n (dg n s) (dg n t) = dg n (\<lambda>i. s i * t i)"
proof -
  have "mm n (dg n s) (dg n t) = mk n (\<lambda>i j. s i * dg n t i j)" by (rule mm_dg_left)
  also have "\<dots> = dg n (\<lambda>i. s i * t i)"
    unfolding dg_def by (rule ext)+ (auto simp: mk_def)
  finally show ?thesis .
qed

lemma dg_cong: "(\<And>i. i < n \<Longrightarrow> s i = t i) \<Longrightarrow> dg n s = dg n t"
  unfolding dg_def by (rule mk_cong) simp

lemma svd_diagonalises:
  assumes oU1: "mm n (mtr n U) U = mone n"
      and oV1: "mm n (mtr n V) V = mone n" and oV2: "mm n V (mtr n V) = mone n"
      and nn: "\<And>i. i < n \<Longrightarrow> 0 \<le> s i"
      and dec: "M = mm n U (mm n (dg n s) (mtr n V))"
      and symM: "mtr n M = M"
      and psdM: "\<And>x. 0 \<le> (\<Sum>a<n. \<Sum>b<n. x a * M a b * x b)"
  shows "mm n (mtr n V) (mm n M V) = dg n s"
proof -
  define P where "P = mm n (mtr n V) (mm n M V)"
  have canon: "mk n P = P" by (simp add: P_def mk_mm)
  have "mtr n P = mm n (mtr n (mm n M V)) (mtr n (mtr n V))"
    unfolding P_def by (rule mtr_mm)
  also have "\<dots> = mm n (mm n (mtr n V) (mtr n M)) (mk n V)"
    by (simp only: mtr_mm mtr_mtr)
  also have "\<dots> = mm n (mm n (mtr n V) M) V"
    by (simp only: symM mm_mk_right)
  also have "\<dots> = P" unfolding P_def by (rule mm_assoc)
  finally have trP: "mtr n P = P" .
  have symP: "P i j = P j i" if "i < n" "j < n" for i j
  proof -
    have "P i j = mtr n P i j" by (simp add: trP)
    also have "\<dots> = P j i" using that by (simp add: mtr_def mk_def)
    finally show ?thesis .
  qed
  have "M = mtr n (mm n U (mm n (dg n s) (mtr n V)))" using symM dec by simp
  also have "\<dots> = mm n (mm n (mtr n (mtr n V)) (mtr n (dg n s))) (mtr n U)"
    by (simp only: mtr_mm)
  also have "\<dots> = mm n (mm n V (dg n s)) (mtr n U)"
    by (simp only: mtr_mtr mtr_dg mm_mk_left)
  also have "\<dots> = mm n V (mm n (dg n s) (mtr n U))" by (rule mm_assoc)
  finally have alt: "M = mm n V (mm n (dg n s) (mtr n U))" .
  have MV: "mm n M V = mm n U (dg n s)"
  proof -
    have "mm n M V = mm n U (mm n (dg n s) (mm n (mtr n V) V))"
      by (subst dec) (simp only: mm_assoc)
    also have "\<dots> = mm n U (dg n s)"
      by (simp only: oV1 mm_mone_right mk_dg)
    finally show ?thesis .
  qed
  have MMV: "mm n M (mm n M V) = mm n V (dg n (\<lambda>i. s i * s i))"
  proof -
    have "mm n M (mm n M V) = mm n (mm n V (mm n (dg n s) (mtr n U))) (mm n U (dg n s))"
      unfolding MV by (subst alt) simp
    also have "\<dots> = mm n V (mm n (dg n s) (mm n (mtr n U) (mm n U (dg n s))))"
      by (simp only: mm_assoc)
    also have "mm n (mtr n U) (mm n U (dg n s)) = dg n s"
      by (simp only: cancel_left[OF oU1] mk_dg)
    also have "mm n (dg n s) (dg n s) = dg n (\<lambda>i. s i * s i)" by (rule dg_dg)
    finally show ?thesis .
  qed
  have sq: "mm n P P = dg n (\<lambda>i. s i * s i)"
  proof -
    have "mm n P P = mm n (mtr n V) (mm n M (mm n V (mm n (mtr n V) (mm n M V))))"
      unfolding P_def by (simp only: mm_assoc)
    also have "mm n V (mm n (mtr n V) (mm n M V)) = mm n M V"
      by (simp only: cancel_left[OF oV2] mk_mm)
    also have "mm n M (mm n M V) = mm n V (dg n (\<lambda>i. s i * s i))" by (rule MMV)
    also have "mm n (mtr n V) (mm n V (dg n (\<lambda>i. s i * s i))) = dg n (\<lambda>i. s i * s i)"
      by (simp only: cancel_left[OF oV1] mk_dg)
    finally show ?thesis .
  qed
  have psdP: "0 \<le> (\<Sum>a<n. \<Sum>b<n. x a * P a b * x b)" for x
    unfolding P_def by (rule psd_conjugate) (rule psdM)
  show ?thesis
    using psd_root_unique_diag[OF canon symP psdP sq nn] by (simp add: P_def)
qed

lemma us_eq_vs:
  assumes oU1: "mm n (mtr n U) U = mone n"
      and oV1: "mm n (mtr n V) V = mone n" and oV2: "mm n V (mtr n V) = mone n"
      and nn: "\<And>i. i < n \<Longrightarrow> 0 \<le> s i"
      and dec: "M = mm n U (mm n (dg n s) (mtr n V))"
      and symM: "mtr n M = M"
      and psdM: "\<And>x. 0 \<le> (\<Sum>a<n. \<Sum>b<n. x a * M a b * x b)"
  shows "mm n U (dg n s) = mm n V (dg n s)"
proof -
  have "mm n M V = mm n U (mm n (dg n s) (mm n (mtr n V) V))"
    by (subst dec) (simp only: mm_assoc)
  also have "\<dots> = mm n U (dg n s)"
    by (simp only: oV1 mm_mone_right mk_dg)
  finally have MV: "mm n M V = mm n U (dg n s)" .
  have "mm n V (mm n (mtr n V) (mm n M V)) = mm n M V"
    by (simp only: cancel_left[OF oV2] mk_mm)
  then have "mm n M V = mm n V (dg n s)"
    using svd_diagonalises[OF assms] by simp
  with MV show ?thesis by simp
qed

lemma root_reconstruct:
  assumes oU1: "mm n (mtr n U) U = mone n"
      and oV1: "mm n (mtr n V) V = mone n" and oV2: "mm n V (mtr n V) = mone n"
      and nn: "\<And>i. i < n \<Longrightarrow> 0 \<le> s i"
      and dec: "M = mm n U (mm n (dg n s) (mtr n V))"
      and symM: "mtr n M = M"
      and psdM: "\<And>x. 0 \<le> (\<Sum>a<n. \<Sum>b<n. x a * M a b * x b)"
      and t: "\<And>j. j < n \<Longrightarrow> t j * t j = s j"
  defines "R \<equiv> mm n U (mm n (dg n t) (mtr n V))"
  shows "R = mm n V (mm n (dg n t) (mtr n V))" and "mm n R R = M"
proof -
  have USVS: "mm n U (dg n s) = mm n V (dg n s)"
    by (rule us_eq_vs[OF oU1 oV1 oV2 nn dec symM psdM])
  have UT: "mm n U (dg n t) = mm n V (dg n t)"
    unfolding mm_dg_right
  proof (rule mk_cong)
    fix i j assume i: "i < n" and j: "j < n"
    have e: "U i j * s j = V i j * s j"
      using USVS unfolding mm_dg_right by (rule mk_eqD) (rule i, rule j)
    show "U i j * t j = V i j * t j"
    proof (cases "s j = 0")
      case True
      then have "t j = 0" using t[OF j] by simp
      then show ?thesis by simp
    next
      case False then show ?thesis using e by simp
    qed
  qed
  have "R = mm n (mm n U (dg n t)) (mtr n V)" unfolding R_def by (simp only: mm_assoc)
  also have "\<dots> = mm n V (mm n (dg n t) (mtr n V))" unfolding UT by (rule mm_assoc)
  finally show R: "R = mm n V (mm n (dg n t) (mtr n V))" .
  have tt: "dg n (\<lambda>i. t i * t i) = dg n s" by (rule dg_cong) (rule t)
  have "mm n R R = mm n V (mm n (dg n t) (mm n (mtr n V) (mm n V (mm n (dg n t) (mtr n V)))))"
    unfolding R by (simp only: mm_assoc)
  also have "mm n (mtr n V) (mm n V (mm n (dg n t) (mtr n V))) = mm n (dg n t) (mtr n V)"
    by (simp only: cancel_left[OF oV1] mk_mm)
  also have "mm n (dg n t) (mm n (dg n t) (mtr n V)) = mm n (dg n s) (mtr n V)"
    by (simp only: mm_assoc[symmetric] dg_dg tt)
  also have "mm n V (mm n (dg n s) (mtr n V)) = mm n (mm n V (dg n s)) (mtr n V)"
    by (simp only: mm_assoc)
  also have "\<dots> = mm n (mm n U (dg n s)) (mtr n V)" by (simp only: USVS)
  also have "\<dots> = M" unfolding dec by (rule mm_assoc)
  finally show "mm n R R = M" .
qed

lemma mv_eq_vs:
  assumes oU1: "mm n (mtr n U) U = mone n"
      and oV1: "mm n (mtr n V) V = mone n" and oV2: "mm n V (mtr n V) = mone n"
      and nn: "\<And>i. i < n \<Longrightarrow> 0 \<le> s i"
      and dec: "M = mm n U (mm n (dg n s) (mtr n V))"
      and symM: "mtr n M = M"
      and psdM: "\<And>x. 0 \<le> (\<Sum>a<n. \<Sum>b<n. x a * M a b * x b)"
  shows "mm n M V = mm n V (dg n s)"
proof -
  have "mm n V (mm n (mtr n V) (mm n M V)) = mm n M V"
    by (simp only: cancel_left[OF oV2] mk_mm)
  then show ?thesis using svd_diagonalises[OF assms] by simp
qed

lemma matrix_vals_nth:
  assumes "i < r" "j < c"
  shows "t_vals (matrix dt r c f) ! (i * c + j) = f i j"
proof -
  let ?rs = "map (\<lambda>i. map (\<lambda>j. f i j) [0..<c]) [0..<r]"
  have "\<forall>row \<in> set ?rs. length row = c" by auto
  moreover have "i < length ?rs" using assms(1) by simp
  ultimately have "concat ?rs ! (i * c + j) = ?rs ! i ! j" using assms(2) by (rule nth_concat_rows)
  then show ?thesis using assms by (simp add: matrix_def)
qed

lemma entry_matrix: "i < r \<Longrightarrow> j < c \<Longrightarrow> entry (matrix dt r c f) i j = f i j"
  using matrix_vals_nth[of i r j c dt f] by (simp add: entry_def matrix_def)

lemma matrix_shape: "t_shape (matrix dt r c f) = [r, c]" and matrix_dtype: "t_dtype (matrix dt r c f) = dt"
  by (simp_all add: matrix_def)

lemma matrix_ok: "t_ok (matrix dt r c f)"
proof -
  have "\<forall>row \<in> set (map (\<lambda>i. map (\<lambda>j. f i j) [0..<c]) [0..<r]). length row = c" by auto
  from length_concat_const[OF this] show ?thesis by (simp add: t_ok_def matrix_def)
qed

lemma matrix_cong:
  "(\<And>i j. i < r \<Longrightarrow> j < c \<Longrightarrow> f i j = g i j) \<Longrightarrow> matrix dt r c f = matrix dt r c g"
  unfolding matrix_def by (auto intro!: arg_cong[of _ _ concat])

lemma matrix_entry_id:
  assumes "t_shape t = [r, c]" "t_ok t"
  shows "matrix (t_dtype t) r c (entry t) = t"
proof -
  have l: "length (t_vals t) = r * c" using assms by (simp add: t_ok_def)
  have "map (\<lambda>i. map (\<lambda>j. entry t i j) [0..<c]) [0..<r] = rows_of r c (t_vals t)"
  proof (rule nth_equalityI)
    show "length (map (\<lambda>i. map (\<lambda>j. entry t i j) [0..<c]) [0..<r]) = length (rows_of r c (t_vals t))"
      by (simp add: rows_of_length)
    fix i assume "i < length (map (\<lambda>i. map (\<lambda>j. entry t i j) [0..<c]) [0..<r])"
    then have i: "i < r" by simp
    show "map (\<lambda>i. map (\<lambda>j. entry t i j) [0..<c]) [0..<r] ! i = rows_of r c (t_vals t) ! i"
      using i rows_of_nth_row[OF l i] assms(1) by (simp add: entry_def)
  qed
  then have "concat (map (\<lambda>i. map (\<lambda>j. entry t i j) [0..<c]) [0..<r]) = t_vals t"
    using concat_rows_of[OF l] by simp
  then show ?thesis using assms(1) by (simp add: matrix_def)
qed

lemma of_t_matrix: "of_t n (matrix dt n n f) = mk n f"
  unfolding of_t_def by (rule mk_cong) (simp add: entry_matrix)

lemma of_t_apply: "i < n \<Longrightarrow> j < n \<Longrightarrow> of_t n t i j = entry t i j"
  by (simp add: of_t_def mk_def)

lemma tensor_eq_of_t:
  assumes "t_shape a = [n, n]" "t_ok a" "t_shape b = [n, n]" "t_ok b" "t_dtype a = t_dtype b"
      and "of_t n a = of_t n b"
  shows "a = b"
proof -
  have "entry a i j = entry b i j" if "i < n" "j < n" for i j
    using assms(6) that by (metis of_t_apply)
  then have "matrix (t_dtype a) n n (entry a) = matrix (t_dtype a) n n (entry b)"
    by (rule matrix_cong)
  then have m: "matrix (t_dtype a) n n (entry a) = matrix (t_dtype a) n n (entry b)" .
  have "a = matrix (t_dtype a) n n (entry a)"
    by (rule matrix_entry_id[OF assms(1,2), symmetric])
  also have "\<dots> = matrix (t_dtype a) n n (entry b)" by (rule m)
  also have "\<dots> = matrix (t_dtype b) n n (entry b)" by (simp only: assms(5))
  also have "\<dots> = b" by (rule matrix_entry_id[OF assms(3,4)])
  finally show ?thesis .
qed

lemma matmul_square:
  assumes "t_shape a = [n, n]" "t_shape b = [n, n]" "t_dtype a = t_dtype b"
  shows "matmul a b False False
         = Inr (matrix (t_dtype a) n n (\<lambda>i j. \<Sum>k<n. entry a i k * entry b k j))"
    and "matmul a b False True
         = Inr (matrix (t_dtype a) n n (\<lambda>i j. \<Sum>k<n. entry a i k * entry b j k))"
  using assms by (simp_all add: matmul_def Let_def)

lemma of_t_matmul:
  "of_t n (matrix dt n n (\<lambda>i j. \<Sum>k<n. entry a i k * entry b k j)) = mm n (of_t n a) (of_t n b)"
proof -
  have "mk n (\<lambda>i j. \<Sum>k<n. entry a i k * entry b k j)
        = mk n (\<lambda>i j. \<Sum>k<n. of_t n a i k * of_t n b k j)"
  proof (rule mk_cong)
    fix i j assume i: "i < n" and j: "j < n"
    show "(\<Sum>k<n. entry a i k * entry b k j) = (\<Sum>k<n. of_t n a i k * of_t n b k j)"
    proof (rule sum.cong[OF refl])
      fix k assume "k \<in> {..<n}"
      then have "k < n" by simp
      then show "entry a i k * entry b k j = of_t n a i k * of_t n b k j"
        using i j by (simp add: of_t_apply)
    qed
  qed
  then have e: "mk n (\<lambda>i j. \<Sum>k<n. entry a i k * entry b k j) = mm n (of_t n a) (of_t n b)"
    unfolding mm_def .
  have "of_t n (matrix dt n n (\<lambda>i j. \<Sum>k<n. entry a i k * entry b k j))
        = mk n (\<lambda>i j. \<Sum>k<n. entry a i k * entry b k j)"
    by (rule of_t_matrix)
  also note e
  finally show ?thesis .
qed

lemma of_t_matmul_tr:
  "of_t n (matrix dt n n (\<lambda>i j. \<Sum>k<n. entry a i k * entry b j k))
   = mm n (of_t n a) (mtr n (of_t n b))"
proof -
  have "mk n (\<lambda>i j. \<Sum>k<n. entry a i k * entry b j k)
        = mk n (\<lambda>i j. \<Sum>k<n. of_t n a i k * mtr n (of_t n b) k j)"
  proof (rule mk_cong)
    fix i j assume i: "i < n" and j: "j < n"
    show "(\<Sum>k<n. entry a i k * entry b j k) = (\<Sum>k<n. of_t n a i k * mtr n (of_t n b) k j)"
    proof (rule sum.cong[OF refl])
      fix k assume "k \<in> {..<n}"
      then have "k < n" by simp
      then show "entry a i k * entry b j k = of_t n a i k * mtr n (of_t n b) k j"
        using i j by (simp add: of_t_apply mtr_def mk_def)
    qed
  qed
  then have e: "mk n (\<lambda>i j. \<Sum>k<n. entry a i k * entry b j k)
                = mm n (of_t n a) (mtr n (of_t n b))"
    unfolding mm_def[of n "of_t n a" "mtr n (of_t n b)"] .
  have "of_t n (matrix dt n n (\<lambda>i j. \<Sum>k<n. entry a i k * entry b j k))
        = mk n (\<lambda>i j. \<Sum>k<n. entry a i k * entry b j k)"
    by (rule of_t_matrix)
  also note e
  finally show ?thesis .
qed

lemma of_t_diag:
  "of_t n (matrix dt n n (\<lambda>i j. if i = j then f i else 0)) = dg n f"
  unfolding dg_def by (rule of_t_matrix)

lemma orthogonal_mm:
  assumes "orthogonal n u"
  shows "mm n (mtr n (of_t n u)) (of_t n u) = mone n"
    and "mm n (of_t n u) (mtr n (of_t n u)) = mone n"
proof -
  show "mm n (mtr n (of_t n u)) (of_t n u) = mone n"
    unfolding mm_def mone_def
  proof (rule mk_cong)
    fix i j assume i: "i < n" and j: "j < n"
    have "(\<Sum>k<n. mtr n (of_t n u) i k * of_t n u k j) = (\<Sum>k<n. entry u k i * entry u k j)"
      by (intro sum.cong refl) (simp add: mtr_def mk_def of_t_apply i j)
    then show "(\<Sum>k<n. mtr n (of_t n u) i k * of_t n u k j) = (if i = j then 1 else 0)"
      using assms i j unfolding orthogonal_def by simp
  qed
  show "mm n (of_t n u) (mtr n (of_t n u)) = mone n"
    unfolding mm_def mone_def
  proof (rule mk_cong)
    fix i j assume i: "i < n" and j: "j < n"
    have "(\<Sum>k<n. of_t n u i k * mtr n (of_t n u) k j) = (\<Sum>k<n. entry u i k * entry u j k)"
      by (intro sum.cong refl) (simp add: mtr_def mk_def of_t_apply i j)
    then show "(\<Sum>k<n. of_t n u i k * mtr n (of_t n u) k j) = (if i = j then 1 else 0)"
      using assms i j unfolding orthogonal_def by simp
  qed
qed

lemma symmetric_mtr:
  assumes "symmetric n mat"
  shows "mtr n (of_t n mat) = of_t n mat"
proof -
  have "mk n (\<lambda>i j. of_t n mat j i) = mk n (entry mat)"
  proof (rule mk_cong)
    fix i j assume i: "i < n" and j: "j < n"
    have "entry mat j i = entry mat i j"
      using assms i j unfolding symmetric_def by blast
    then show "of_t n mat j i = entry mat i j" using i j by (simp add: of_t_apply)
  qed
  then show ?thesis by (simp only: mtr_def of_t_def)
qed

lemma psd_of_t:
  "psd n mat \<Longrightarrow> 0 \<le> (\<Sum>a<n. \<Sum>b<n. x a * of_t n mat a b * x b)"
proof -
  assume "psd n mat"
  then have "0 \<le> (\<Sum>a<n. \<Sum>b<n. x a * entry mat a b * x b)" by (simp add: psd_def)
  moreover have "(\<Sum>a<n. \<Sum>b<n. x a * of_t n mat a b * x b)
                 = (\<Sum>a<n. \<Sum>b<n. x a * entry mat a b * x b)"
    by (intro sum.cong refl) (simp add: of_t_apply)
  ultimately show ?thesis by simp
qed

lemma svd_decomposition:
  assumes "\<forall>i<n. \<forall>j<n. entry mat i j = (\<Sum>k<n. entry u i k * t_vals s ! k * entry v j k)"
  shows "of_t n mat = mm n (of_t n u) (mm n (dg n (\<lambda>k. t_vals s ! k)) (mtr n (of_t n v)))"
  unfolding mm_dg_left mm_mk_right
  unfolding mm_def of_t_def[of n mat]
proof (rule mk_cong)
  fix i j assume i: "i < n" and j: "j < n"
  have "(\<Sum>k<n. of_t n u i k * (t_vals s ! k * mtr n (of_t n v) k j))
        = (\<Sum>k<n. entry u i k * t_vals s ! k * entry v j k)"
    by (intro sum.cong refl) (simp add: of_t_apply mtr_def mk_def i j)
  then show "entry mat i j = (\<Sum>k<n. of_t n u i k * (t_vals s ! k * mtr n (of_t n v) k j))"
    using assms i j by simp
qed

lemma svd_of_D:
  assumes "svd_of n mat (s, u, v)"
  shows "t_shape s = [n]" "t_shape u = [n, n]" "t_shape v = [n, n]" "length (t_vals s) = n"
    "t_dtype s = t_dtype mat" "t_dtype u = t_dtype mat" "t_dtype v = t_dtype mat"
    "\<And>k. k < n \<Longrightarrow> 0 \<le> t_vals s ! k" "orthogonal n u" "orthogonal n v"
    "\<forall>i<n. \<forall>j<n. entry mat i j = (\<Sum>k<n. entry u i k * t_vals s ! k * entry v j k)"
  using assms unfolding svd_of_def by simp_all

lemma smsr_run:
  assumes svd: "svd mat = Inr (s, u, v)" and c: "svd_of n mat (s, u, v)"
  shows "\<exists>r. symmetric_matrix_square_root svd mat eps = Inr (Finite r)
           \<and> t_shape r = [n, n] \<and> t_ok r \<and> t_dtype r = t_dtype mat
           \<and> of_t n r = mm n (of_t n u)
                          (mm n (dg n (\<lambda>k. clamp_sqrt eps (t_vals s ! k))) (mtr n (of_t n v)))"
proof -
  note f = svd_of_D[OF c]
  define si where "si = map_t (clamp_sqrt eps) s"
  define d where "d = matrix (t_dtype si) n n (\<lambda>i j. if i = j then t_vals si ! i else 0)"
  define ud where "ud = matrix (t_dtype u) n n (\<lambda>i j. \<Sum>k<n. entry u i k * entry d k j)"
  define r where "r = matrix (t_dtype ud) n n (\<lambda>i j. \<Sum>k<n. entry ud i k * entry v j k)"
  have sis: "t_shape si = [n]" "t_dtype si = t_dtype mat"
    using f(1,5) by (simp_all add: si_def map_t_def)
  have dd: "diag si = Inr d" by (simp add: diag_def sis d_def)
  have dsh: "t_shape d = [n, n]" "t_dtype d = t_dtype mat"
    by (simp_all add: d_def matrix_shape matrix_dtype sis)
  have m1: "matmul u d False False = Inr ud"
    unfolding ud_def by (rule matmul_square(1)) (simp_all add: f(2,6) dsh)
  have udsh: "t_shape ud = [n, n]" "t_dtype ud = t_dtype mat"
    by (simp_all add: ud_def matrix_shape matrix_dtype f(6))
  have m2: "matmul ud v False True = Inr r"
    unfolding r_def by (rule matmul_square(2)) (simp_all add: f(3,7) udsh)
  have nonan: "\<not> list_ex (\<lambda>x. \<not> x < eps \<and> x < 0) (t_vals s)"
  proof
    assume "list_ex (\<lambda>x. \<not> x < eps \<and> x < 0) (t_vals s)"
    then obtain x where x: "x \<in> set (t_vals s)" "x < 0" by (auto simp: list_ex_iff)
    then obtain k where k: "k < length (t_vals s)" "t_vals s ! k = x"
      by (auto simp: in_set_conv_nth)
    then have "0 \<le> x" using f(8)[of k] f(4) by simp
    then show False using x(2) by simp
  qed
  have run: "symmetric_matrix_square_root svd mat eps = Inr (Finite r)"
    unfolding symmetric_matrix_square_root_def Let_def
    by (simp add: svd nonan si_def[symmetric] dd m1 m2)
  have dv: "of_t n d = dg n (\<lambda>k. clamp_sqrt eps (t_vals s ! k))"
  proof -
    have "of_t n d = dg n (\<lambda>i. t_vals si ! i)" unfolding d_def by (rule of_t_diag)
    also have "\<dots> = dg n (\<lambda>k. clamp_sqrt eps (t_vals s ! k))"
      by (rule dg_cong) (simp add: si_def map_t_def f(4))
    finally show ?thesis .
  qed
  have "of_t n r = mm n (of_t n ud) (mtr n (of_t n v))"
    unfolding r_def by (rule of_t_matmul_tr)
  also have "of_t n ud = mm n (of_t n u) (of_t n d)"
    unfolding ud_def by (rule of_t_matmul)
  finally have "of_t n r = mm n (mm n (of_t n u) (of_t n d)) (mtr n (of_t n v))" .
  then have ofr: "of_t n r = mm n (of_t n u)
                          (mm n (dg n (\<lambda>k. clamp_sqrt eps (t_vals s ! k))) (mtr n (of_t n v)))"
    unfolding dv by (simp only: mm_assoc)
  have "t_shape r = [n, n]" "t_ok r" "t_dtype r = t_dtype mat"
    by (simp_all add: r_def matrix_shape matrix_ok matrix_dtype udsh)
  with run ofr show ?thesis by blast
qed

lemma svd_la:
  assumes c: "svd_of n mat (s, u, v)" and sym: "symmetric n mat" and psd: "psd n mat"
  shows "mm n (mtr n (of_t n u)) (of_t n u) = mone n"
    "mm n (mtr n (of_t n v)) (of_t n v) = mone n"
    "mm n (of_t n v) (mtr n (of_t n v)) = mone n"
    "\<And>i. i < n \<Longrightarrow> 0 \<le> t_vals s ! i"
    "of_t n mat = mm n (of_t n u) (mm n (dg n (\<lambda>k. t_vals s ! k)) (mtr n (of_t n v)))"
    "mtr n (of_t n mat) = of_t n mat"
    "\<And>x. 0 \<le> (\<Sum>a<n. \<Sum>b<n. x a * of_t n mat a b * x b)"
proof -
  note f = svd_of_D[OF c]
  show "mm n (mtr n (of_t n u)) (of_t n u) = mone n" by (rule orthogonal_mm(1)[OF f(9)])
  show "mm n (mtr n (of_t n v)) (of_t n v) = mone n" by (rule orthogonal_mm(1)[OF f(10)])
  show "mm n (of_t n v) (mtr n (of_t n v)) = mone n" by (rule orthogonal_mm(2)[OF f(10)])
  show "\<And>i. i < n \<Longrightarrow> 0 \<le> t_vals s ! i" by (rule f(8))
  show "of_t n mat = mm n (of_t n u) (mm n (dg n (\<lambda>k. t_vals s ! k)) (mtr n (of_t n v)))"
    by (rule svd_decomposition[OF f(11)])
  show "mtr n (of_t n mat) = of_t n mat" by (rule symmetric_mtr[OF sym])
  show "\<And>x. 0 \<le> (\<Sum>a<n. \<Sum>b<n. x a * of_t n mat a b * x b)" by (rule psd_of_t[OF psd])
qed

lemma singular_is_eigenvalue:
  assumes c: "svd_of n mat (s, u, v)" and sym: "symmetric n mat" and psd: "psd n mat"
      and k: "k < n" and i: "i < n"
  shows "(\<Sum>j<n. entry mat i j * entry v j k) = t_vals s ! k * entry v i k"
proof -
  note la = svd_la[OF c sym psd]
  have e: "mm n (of_t n mat) (of_t n v) = mm n (of_t n v) (dg n (\<lambda>k. t_vals s ! k))"
    by (rule mv_eq_vs[OF la(1) la(2) la(3) la(4) la(5) la(6) la(7)])
  have "(\<Sum>j<n. entry mat i j * entry v j k) = (\<Sum>j<n. of_t n mat i j * of_t n v j k)"
    by (rule sum.cong[OF refl]) (simp add: of_t_apply i k)
  also have "\<dots> = mm n (of_t n mat) (of_t n v) i k" by (simp add: mm_apply i k)
  also have "\<dots> = mk n (\<lambda>i j. of_t n v i j * t_vals s ! j) i k"
    unfolding e by (simp only: mm_dg_right)
  also have "\<dots> = t_vals s ! k * entry v i k" by (simp add: mk_apply i k of_t_apply)
  finally show ?thesis .
qed

lemma orthogonal_column_nonzero:
  assumes o: "orthogonal n v" and k: "k < n"
  shows "\<exists>i<n. entry v i k \<noteq> 0"
proof (rule ccontr)
  assume "\<not> (\<exists>i<n. entry v i k \<noteq> 0)"
  then have z: "\<And>i. i < n \<Longrightarrow> entry v i k = 0" by blast
  have "(\<Sum>i<n. entry v i k * entry v i k) = 0" by (rule sum.neutral) (simp add: z)
  moreover have "(\<Sum>i<n. entry v i k * entry v i k) = (if k = k then 1 else 0)"
    using o k unfolding orthogonal_def by blast
  ultimately show False by simp
qed

lemma singular_ge_eps:
  assumes c: "svd_of n mat (s, u, v)" and sym: "symmetric n mat" and psd: "psd n mat"
      and ev: "eigenvalues_at_least n mat eps" and k: "k < n"
  shows "eps \<le> t_vals s ! k"
proof -
  define x where "x = (\<lambda>i. entry v i k)"
  have 1: "\<exists>i<n. x i \<noteq> 0"
    unfolding x_def by (rule orthogonal_column_nonzero[OF svd_of_D(10)[OF c] k])
  have 2: "\<forall>i<n. (\<Sum>j<n. entry mat i j * x j) = t_vals s ! k * x i"
    unfolding x_def using singular_is_eigenvalue[OF c sym psd k] by blast
  have "\<forall>lam. (\<exists>i<n. x i \<noteq> 0) \<and> (\<forall>i<n. (\<Sum>j<n. entry mat i j * x j) = lam * x i)
        \<longrightarrow> eps \<le> lam"
    using ev unfolding eigenvalues_at_least_def by (rule spec)
  then have "(\<exists>i<n. x i \<noteq> 0) \<and> (\<forall>i<n. (\<Sum>j<n. entry mat i j * x j) = t_vals s ! k * x i)
        \<longrightarrow> eps \<le> t_vals s ! k"
    by (rule spec)
  with 1 2 show ?thesis by (simp only: simp_thms)
qed

lemma udv_entry:
  assumes i: "i < n" and j: "j < n"
  shows "mm n (of_t n u) (mm n (dg n t) (mtr n (of_t n v))) i j
         = (\<Sum>k<n. entry u i k * t k * entry v j k)"
proof -
  have "mm n (of_t n u) (mm n (dg n t) (mtr n (of_t n v))) i j
        = (\<Sum>k<n. of_t n u i k * mm n (dg n t) (mtr n (of_t n v)) k j)"
    by (rule mm_apply[OF i j])
  also have "\<dots> = (\<Sum>k<n. entry u i k * t k * entry v j k)"
  proof (rule sum.cong[OF refl])
    fix k assume "k \<in> {..<n}"
    then have k: "k < n" by simp
    have "mm n (dg n t) (mtr n (of_t n v)) k j = mk n (\<lambda>i j. t i * mtr n (of_t n v) i j) k j"
      by (simp only: mm_dg_left)
    also have "\<dots> = t k * entry v j k"
      using k j by (simp add: mk_apply mtr_def of_t_apply)
    finally show "of_t n u i k * mm n (dg n t) (mtr n (of_t n v)) k j
                  = entry u i k * t k * entry v j k"
      using i k by (simp add: of_t_apply)
  qed
  finally show ?thesis .
qed

lemma identity_symmetric_psd:
  assumes id: "\<forall>i<n. \<forall>j<n. entry mat i j = (if i = j then 1 else 0)"
  shows "symmetric n mat" "psd n mat" "of_t n mat = mone n"
proof -
  show "symmetric n mat" unfolding symmetric_def using id by auto
  show "psd n mat" unfolding psd_def
  proof
    fix x :: "nat \<Rightarrow> real"
    have "(\<Sum>i<n. \<Sum>j<n. x i * entry mat i j * x j) = (\<Sum>i<n. x i * x i)"
    proof (rule sum.cong[OF refl])
      fix i assume "i \<in> {..<n}"
      then have i: "i < n" by simp
      have "(\<Sum>j<n. x i * entry mat i j * x j) = (\<Sum>j<n. if j = i then x i * x i else 0)"
        by (rule sum.cong[OF refl]) (use id i in auto)
      also have "\<dots> = x i * x i" using i by simp
      finally show "(\<Sum>j<n. x i * entry mat i j * x j) = x i * x i" .
    qed
    also have "0 \<le> (\<Sum>i<n. x i * x i)" by (rule sum_nonneg) simp
    finally show "0 \<le> (\<Sum>i<n. \<Sum>j<n. x i * entry mat i j * x j)" by simp
  qed
  show "of_t n mat = mone n"
    unfolding of_t_def mone_def by (rule mk_cong) (use id in simp)
qed

lemma identity_singular_values:
  assumes c: "svd_of n mat (s, u, v)"
      and id: "\<forall>i<n. \<forall>j<n. entry mat i j = (if i = j then 1 else 0)"
      and k: "k < n"
  shows "t_vals s ! k = 1"
proof -
  note i = identity_symmetric_psd[OF id]
  note la = svd_la[OF c i(1) i(2)]
  have "mm n (mtr n (of_t n v)) (mm n (of_t n mat) (of_t n v)) = dg n (\<lambda>k. t_vals s ! k)"
    by (rule svd_diagonalises[OF la(1) la(2) la(3) la(4) la(5) la(6) la(7)])
  moreover have "mm n (mtr n (of_t n v)) (mm n (of_t n mat) (of_t n v)) = mone n"
    unfolding i(3) by (simp only: mm_mone_left mm_mk_right la(2))
  ultimately have "mone n = dg n (\<lambda>k. t_vals s ! k)" by simp
  then have "mk n (\<lambda>i j. if i = j then 1 else 0) = mk n (\<lambda>i j. if i = j then t_vals s ! i else 0)"
    unfolding mone_def dg_def .
  from mk_eqD[OF this k k] show ?thesis by simp
qed

text \<open>
  Claim C2. Let \<open>tf.svd\<close> return, for the square matrix \<open>mat\<close> of dimension \<open>n\<close>, singular
  values \<open>s\<close> and matrices \<open>u\<close> and \<open>v\<close> that are a singular value decomposition of \<open>mat\<close>.
  If \<open>mat\<close> is symmetric and positive semidefinite and all its eigenvalues are at least
  \<open>eps\<close>, the result \<open>r\<close> of \<open>_symmetric_matrix_square_root\<close> is a matrix with
  \<open>matmul r r = mat\<close>. If \<open>mat\<close> is the identity matrix, the result is the identity matrix.
  In every case the result is \<open>u diag(si) v\<^sup>T\<close>, where \<open>si\<close> is the singular value itself
  where that is below \<open>eps\<close> and its square root elsewhere. Values are idealised real
  numbers, so the equalities are exact.
\<close>

theorem symmetric_matrix_square_root_squares:
  assumes sh: "t_shape mat = [n, n]" and ok: "t_ok mat"
      and svd: "svd mat = Inr (s, u, v)" and c: "svd_of n mat (s, u, v)"
  shows "(symmetric n mat \<and> psd n mat \<and> eigenvalues_at_least n mat eps \<longrightarrow>
           (\<exists>r. symmetric_matrix_square_root svd mat eps = Inr (Finite r)
                \<and> t_shape r = [n, n] \<and> matmul r r False False = Inr mat))
       \<and> ((\<forall>i<n. \<forall>j<n. entry mat i j = (if i = j then 1 else 0)) \<longrightarrow>
            symmetric_matrix_square_root svd mat eps = Inr (Finite mat))
       \<and> (\<exists>r. symmetric_matrix_square_root svd mat eps = Inr (Finite r)
              \<and> (\<forall>i<n. \<forall>j<n. entry r i j =
                   (\<Sum>k<n. entry u i k
                      * (if t_vals s ! k < eps then t_vals s ! k else sqrt (t_vals s ! k))
                      * entry v j k)))"
proof -
  define t where "t = (\<lambda>k. clamp_sqrt eps (t_vals s ! k))"
  from smsr_run[where svd = svd and mat = mat and eps = eps, OF svd c]
  obtain r where r: "symmetric_matrix_square_root svd mat eps = Inr (Finite r)"
      "t_shape r = [n, n]" "t_ok r" "t_dtype r = t_dtype mat"
      "of_t n r = mm n (of_t n u) (mm n (dg n t) (mtr n (of_t n v)))"
    unfolding t_def by blast
  have A: "\<exists>r. symmetric_matrix_square_root svd mat eps = Inr (Finite r)
                \<and> t_shape r = [n, n] \<and> matmul r r False False = Inr mat"
    if h: "symmetric n mat \<and> psd n mat \<and> eigenvalues_at_least n mat eps"
  proof -
    from h have sym: "symmetric n mat" and psd: "psd n mat"
      and ev: "eigenvalues_at_least n mat eps" by simp_all
    note la = svd_la[OF c sym psd]
    have tt: "t j * t j = t_vals s ! j" if j: "j < n" for j
    proof -
      have "eps \<le> t_vals s ! j" by (rule singular_ge_eps[OF c sym psd ev j])
      then have "t j = sqrt (t_vals s ! j)" by (simp add: t_def clamp_sqrt_def)
      moreover have "0 \<le> t_vals s ! j" by (rule la(4)[OF j])
      ultimately show ?thesis by simp
    qed
    have sq: "mm n (of_t n r) (of_t n r) = of_t n mat"
      unfolding r(5)
      by (rule root_reconstruct(2)[OF la(1) la(2) la(3) la(4) la(5) la(6) la(7) tt])
    define rr where "rr = matrix (t_dtype r) n n (\<lambda>i j. \<Sum>k<n. entry r i k * entry r k j)"
    have m: "matmul r r False False = Inr rr"
      unfolding rr_def by (rule matmul_square(1)[OF r(2) r(2) refl])
    have "of_t n rr = mm n (of_t n r) (of_t n r)" unfolding rr_def by (rule of_t_matmul)
    then have e: "of_t n rr = of_t n mat" unfolding sq .
    have "rr = mat"
    proof (rule tensor_eq_of_t[OF _ _ sh ok _ e])
      show "t_shape rr = [n, n]" by (simp add: rr_def matrix_shape)
      show "t_ok rr" unfolding rr_def by (rule matrix_ok)
      show "t_dtype rr = t_dtype mat" by (simp add: rr_def matrix_dtype r(4))
    qed
    with m r(1,2) show ?thesis by blast
  qed
  have B: "symmetric_matrix_square_root svd mat eps = Inr (Finite mat)"
    if id: "\<forall>i<n. \<forall>j<n. entry mat i j = (if i = j then 1 else 0)"
  proof -
    note i = identity_symmetric_psd[OF id]
    note la = svd_la[OF c i(1) i(2)]
    have "dg n t = dg n (\<lambda>k. t_vals s ! k)"
    proof (rule dg_cong)
      fix k assume "k < n"
      from identity_singular_values[OF c id this]
      show "t k = t_vals s ! k" by (simp add: t_def clamp_sqrt_def)
    qed
    then have "of_t n r = of_t n mat" unfolding r(5) using la(5) by simp
    from tensor_eq_of_t[OF r(2) r(3) sh ok r(4) this] r(1) show ?thesis by simp
  qed
  have C: "\<forall>i<n. \<forall>j<n. entry r i j =
                   (\<Sum>k<n. entry u i k
                      * (if t_vals s ! k < eps then t_vals s ! k else sqrt (t_vals s ! k))
                      * entry v j k)"
  proof (intro allI impI)
    fix i j assume i: "i < n" and j: "j < n"
    have "entry r i j = of_t n r i j" using i j by (simp add: of_t_apply)
    also have "\<dots> = (\<Sum>k<n. entry u i k * t k * entry v j k)"
      unfolding r(5) by (rule udv_entry[OF i j])
    finally show "entry r i j =
                   (\<Sum>k<n. entry u i k
                      * (if t_vals s ! k < eps then t_vals s ! k else sqrt (t_vals s ! k))
                      * entry v j k)"
      by (simp add: t_def clamp_sqrt_def)
  qed
  from A B C r(1) show ?thesis by blast
qed

lemma all_lt2: "(\<forall>i<(2::nat). P i) \<longleftrightarrow> P 0 \<and> P (Suc 0)"
proof
  assume "\<forall>i<2. P i"
  then show "P 0 \<and> P (Suc 0)" by simp
next
  assume h: "P 0 \<and> P (Suc 0)"
  show "\<forall>i<2. P i"
  proof (intro allI impI)
    fix i :: nat assume "i < 2"
    then have "i = 0 \<or> i = Suc 0" by arith
    then show "P i" using h by auto
  qed
qed

lemma ex_lt2: "(\<exists>i<(2::nat). P i) \<longleftrightarrow> P 0 \<or> P (Suc 0)"
  using all_lt2[of "\<lambda>i. \<not> P i"] by blast

theorem symmetric_matrix_square_root_squares_witness:
  "(\<exists>r. symmetric_matrix_square_root
           (\<lambda>m. Inr (\<lparr>t_dtype = Float32, t_shape = [2], t_vals = [9, 4]\<rparr>,
                      \<lparr>t_dtype = Float32, t_shape = [2, 2], t_vals = [0, 1, 1, 0]\<rparr>,
                      \<lparr>t_dtype = Float32, t_shape = [2, 2], t_vals = [0, 1, 1, 0]\<rparr>))
           \<lparr>t_dtype = Float32, t_shape = [2, 2], t_vals = [4, 0, 0, 9]\<rparr> default_eps
         = Inr (Finite r)
       \<and> t_shape r = [2, 2]
       \<and> matmul r r False False
           = Inr \<lparr>t_dtype = Float32, t_shape = [2, 2], t_vals = [4, 0, 0, 9]\<rparr>)
   \<and> symmetric_matrix_square_root
           (\<lambda>m. Inr (\<lparr>t_dtype = Float32, t_shape = [2], t_vals = [1, 1]\<rparr>,
                      \<lparr>t_dtype = Float32, t_shape = [2, 2], t_vals = [0, 1, 1, 0]\<rparr>,
                      \<lparr>t_dtype = Float32, t_shape = [2, 2], t_vals = [0, 1, 1, 0]\<rparr>))
           \<lparr>t_dtype = Float32, t_shape = [2, 2], t_vals = [1, 0, 0, 1]\<rparr> default_eps
         = Inr (Finite \<lparr>t_dtype = Float32, t_shape = [2, 2], t_vals = [1, 0, 0, 1]\<rparr>)"
proof -
  let ?s = "\<lparr>t_dtype = Float32, t_shape = [2], t_vals = [9, 4 :: real]\<rparr>"
  let ?o = "\<lparr>t_dtype = Float32, t_shape = [2], t_vals = [1, 1 :: real]\<rparr>"
  let ?u = "\<lparr>t_dtype = Float32, t_shape = [2, 2], t_vals = [0, 1, 1, 0 :: real]\<rparr>"
  let ?m = "\<lparr>t_dtype = Float32, t_shape = [2, 2], t_vals = [4, 0, 0, 9 :: real]\<rparr>"
  let ?i = "\<lparr>t_dtype = Float32, t_shape = [2, 2], t_vals = [1, 0, 0, 1 :: real]\<rparr>"
  let ?svd = "\<lambda>m :: tensor. (Inr (?s, ?u, ?u) :: error + tensor \<times> tensor \<times> tensor)"
  let ?svi = "\<lambda>m :: tensor. (Inr (?o, ?u, ?u) :: error + tensor \<times> tensor \<times> tensor)"
  have sh: "t_shape ?m = [2, 2]" "t_shape ?i = [2, 2]" by simp_all
  have ok: "t_ok ?m" "t_ok ?i" by (simp_all add: t_ok_def)
  have c: "svd_of 2 ?m (?s, ?u, ?u)"
    by (simp add: svd_of_def orthogonal_def entry_def all_lt2 sum_lt2)
  have ci: "svd_of 2 ?i (?o, ?u, ?u)"
    by (simp add: svd_of_def orthogonal_def entry_def all_lt2 sum_lt2)
  have sym: "symmetric 2 ?m" by (simp add: symmetric_def entry_def all_lt2)
  have psd: "psd 2 ?m"
    unfolding psd_def
  proof
    fix x :: "nat \<Rightarrow> real"
    have "(\<Sum>i<2. \<Sum>j<2. x i * entry ?m i j * x j) = 4 * (x 0 * x 0) + 9 * (x (Suc 0) * x (Suc 0))"
      by (simp add: sum_lt2 entry_def)
    moreover have "0 \<le> 4 * (x 0 * x 0) + 9 * (x (Suc 0) * x (Suc 0))"
    proof -
      have "0 \<le> x 0 * x 0" "0 \<le> x (Suc 0) * x (Suc 0)" by simp_all
      then show ?thesis by linarith
    qed
    ultimately show "0 \<le> (\<Sum>i<2. \<Sum>j<2. x i * entry ?m i j * x j)" by simp
  qed
  have ev: "eigenvalues_at_least 2 ?m default_eps"
    unfolding eigenvalues_at_least_def
  proof (intro allI impI)
    fix x :: "nat \<Rightarrow> real" and lam :: real
    assume "(\<exists>i<2. x i \<noteq> 0) \<and> (\<forall>i<2. (\<Sum>j<2. entry ?m i j * x j) = lam * x i)"
    then have "(x 0 \<noteq> 0 \<or> x (Suc 0) \<noteq> 0) \<and> 4 * x 0 = lam * x 0 \<and> 9 * x (Suc 0) = lam * x (Suc 0)"
      by (simp add: all_lt2 ex_lt2 sum_lt2 entry_def)
    then have "lam = 4 \<or> lam = 9" by auto
    then show "default_eps \<le> lam" by (auto simp: default_eps_def)
  qed
  have idm: "\<forall>i<2. \<forall>j<2. entry ?i i j = (if i = j then 1 else 0)"
    by (simp add: entry_def all_lt2)
  from symmetric_matrix_square_root_squares[of ?m 2 ?svd ?s ?u ?u default_eps, OF sh(1) ok(1) refl c]
    sym psd ev
  have 1: "\<exists>r. symmetric_matrix_square_root ?svd ?m default_eps = Inr (Finite r)
                \<and> t_shape r = [2, 2] \<and> matmul r r False False = Inr ?m" by blast
  from symmetric_matrix_square_root_squares[of ?i 2 ?svi ?o ?u ?u default_eps, OF sh(2) ok(2) refl ci]
    idm
  have 2: "symmetric_matrix_square_root ?svi ?i default_eps = Inr (Finite ?i)" by blast
  from 1 2 show ?thesis by blast
qed

section \<open>Properties of the Frechet classifier distance\<close>






















lemma upt_3: "[0..<3] = [0, Suc 0, 2]"
  by (simp add: upt_rec)


end
